theory Spec2Isabelle
  imports Complex_Main
begin

section \<open>JavaScript values and strings\<close>

text \<open>
  A JavaScript string is modelled as a \<^typ>\<open>string\<close>, one \<^typ>\<open>char\<close> per code unit;
  \<open>length\<close> is the \<open>.length\<close> of the source. The model covers ASCII text: white space
  and the case mappings are those of the code units below 128, and every other
  \<^typ>\<open>char\<close> is an ordinary character without case. The values a caller can hand to
  the exported functions are the JSON primitives; numbers are kept as integers, which is
  all the code below looks at (it only asks whether a value is a string and whether it is
  truthy).
\<close>

datatype jsval = Undefined | Null | Bool bool | Num int | Str string

datatype error = TypeError | StorageError

fun truthy :: "jsval \<Rightarrow> bool" where
  "truthy Undefined = False"
| "truthy Null = False"
| "truthy (Bool b) = b"
| "truthy (Num n) = (n \<noteq> 0)"
| "truthy (Str s) = (s \<noteq> [])"

text \<open>
  The ASCII characters matched by \<open>\s\<close> (and removed by \<open>trim\<close>): tab, line feed,
  vertical tab, form feed, carriage return and space.
\<close>

definition is_space :: "char \<Rightarrow> bool" where
  "is_space c = (of_char c \<in> {9, 10, 11, 12, 13, 32 :: nat})"

definition trim :: "string \<Rightarrow> string" where
  "trim s = rev (dropWhile is_space (rev (dropWhile is_space s)))"

definition toLowerCase_char :: "char \<Rightarrow> char" where
  "toLowerCase_char c =
     (let n = of_char c :: nat in if 65 \<le> n \<and> n \<le> 90 then char_of (n + 32) else c)"

definition toUpperCase_char :: "char \<Rightarrow> char" where
  "toUpperCase_char c =
     (let n = of_char c :: nat in if 97 \<le> n \<and> n \<le> 122 then char_of (n - 32) else c)"

definition toLowerCase :: "string \<Rightarrow> string" where
  "toLowerCase s = map toLowerCase_char s"

definition toUpperCase :: "string \<Rightarrow> string" where
  "toUpperCase s = map toUpperCase_char s"

text \<open>\<open>s.split(/\s+/)\<close>: the pieces between the maximal runs of white space; a string that
  starts or ends with white space gives an empty first or last piece, and the empty string
  gives one empty piece.\<close>

function split_ws_from :: "string \<Rightarrow> string \<Rightarrow> string list" where
  "split_ws_from cur [] = [cur]"
| "split_ws_from cur (c # cs) =
     (if is_space c then cur # split_ws_from [] (dropWhile is_space cs)
      else split_ws_from (cur @ [c]) cs)"
  by pat_completeness auto
termination
  by (relation "measure (\<lambda>(cur, s). length s)")
     (auto simp: le_imp_less_Suc length_dropWhile_le)

definition split_ws :: "string \<Rightarrow> string list" where
  "split_ws s = split_ws_from [] s"

text \<open>\<open>s.startsWith(p)\<close> and \<open>s.includes(t)\<close> (\<open>includes\<close> is a keyword of Isabelle, hence the suffix).\<close>

fun startsWith :: "string \<Rightarrow> string \<Rightarrow> bool" where
  "startsWith s [] = True"
| "startsWith [] (c # p) = False"
| "startsWith (x # s) (c # p) = (x = c \<and> startsWith s p)"

fun includes_str :: "string \<Rightarrow> string \<Rightarrow> bool" where
  "includes_str [] t = (t = [])"
| "includes_str (x # s) t = (startsWith (x # s) t \<or> includes_str s t)"

section \<open>The similarity score (\<open>calculateSimilarity\<close>, routes/demo.js)\<close>

text \<open>
  \<open>words\<close> is \<open>str.split(/\s+/).filter(word => word.length > 2)\<close>. The two nested loops
  are \<open>count_matches\<close> (outer loop, counting) and \<open>has_match\<close> (inner loop, which stops at
  the first hit). The score \<open>matches / totalWords\<close> is a quotient of two token counts; it is
  kept as an exact rational. The double the program computes is the correctly rounded
  value of that quotient: it compares with \<open>0\<close>, \<open>0.3\<close> and \<open>1\<close> as the quotient does, and
  two scores compare as their quotients do as long as the strings have fewer than
  \<open>2^26\<close> tokens (different quotients are then further apart than the rounding).
\<close>

definition words :: "string \<Rightarrow> string list" where
  "words str = filter (\<lambda>word. length word > 2) (split_ws str)"

fun has_match :: "string \<Rightarrow> string list \<Rightarrow> bool" where
  "has_match word1 [] = False"
| "has_match word1 (word2 # rest) =
     (if includes_str word1 word2 \<or> includes_str word2 word1 then True else has_match word1 rest)"

fun count_matches :: "string list \<Rightarrow> string list \<Rightarrow> nat" where
  "count_matches [] words2 = 0"
| "count_matches (word1 # rest) words2 =
     (if has_match word1 words2 then Suc (count_matches rest words2)
      else count_matches rest words2)"

definition calculateSimilarity :: "string \<Rightarrow> string \<Rightarrow> rat" where
  "calculateSimilarity str1 str2 =
     (let words1 = words str1; words2 = words str2 in
      if length words1 = 0 \<or> length words2 = 0 then 0
      else let matches = count_matches words1 words2;
               totalWords = max (length words1) (length words2)
           in of_nat matches / of_nat totalWords)"

section \<open>Stored data and the answer matcher (\<open>findMatchingAnswer\<close>, routes/demo.js)\<close>

text \<open>
  The rows are the Sequelize models of the repository, with the fields the matcher and the
  question routes read, nested the way the ORM hands them over (\<open>question.answer\<close>,
  \<open>question.variants\<close>, \<open>question.answer.variants\<close>). A primary key is a UUID string.
\<close>

type_synonym uuid = string

datatype status = Draft | Final

record answer_variant =
  av_variant_text :: string
  av_variant_html :: string
  av_is_approved :: bool

record question_variant =
  qv_variant_text :: string
  qv_is_approved :: bool

record answer =
  a_id :: uuid
  answer_text :: string
  answer_html :: string
  a_status :: status
  a_variants :: "answer_variant list"

record question =
  q_id :: uuid
  agent_id :: uuid
  question_text :: string
  q_status :: status
  q_answer :: "answer option"
  q_variants :: "question_variant list"

text \<open>The store either answers a query or fails it (the rejected promise of the source).\<close>

datatype database = Unavailable | Connected "question list"

text \<open>
  \<open>Question.findAll\<close> with the \<open>where\<close> and \<open>include\<close> clauses of the matcher: questions
  of the agent with status \<open>Final\<close>, inner-joined with an answer of status \<open>Final\<close>; the
  two variant lists are outer joins (\<open>required: false\<close>) restricted to approved rows.
\<close>

definition matchable :: "uuid \<Rightarrow> question \<Rightarrow> bool" where
  "matchable agentId q =
     (agent_id q = agentId \<and> q_status q = Final \<and>
      (case q_answer q of None \<Rightarrow> False | Some a \<Rightarrow> a_status a = Final))"

definition load_includes :: "question \<Rightarrow> question" where
  "load_includes q =
     q\<lparr>q_answer :=
         map_option (\<lambda>a. a\<lparr>a_variants := filter av_is_approved (a_variants a)\<rparr>) (q_answer q),
       q_variants := filter qv_is_approved (q_variants q)\<rparr>"

fun Question_findAll :: "database \<Rightarrow> uuid \<Rightarrow> error + question list" where
  "Question_findAll Unavailable agentId = Inl StorageError"
| "Question_findAll (Connected rows) agentId =
     Inr (map load_includes (filter (matchable agentId) rows))"

text \<open>
  \<open>Math.random()\<close>: the outcomes of the random choices are a sequence of numbers, read
  one per call. A run of the program draws them from \<open>[0, 1)\<close> (\<open>valid_rng\<close>). Where the
  source picks an array element by \<open>Math.floor(Math.random() * n)\<close> the product is exact
  here; the rounded product of the source picks an index of the same range \<open>0 .. n - 1\<close>.
  A double exceeds the literal \<open>0.7\<close>, \<open>0.6\<close> or \<open>0.5\<close> of the source exactly when it
  exceeds 7/10, 6/10 or 1/2.
\<close>

type_synonym rng = "nat \<Rightarrow> rat"

definition Math_random :: "rng \<Rightarrow> rat \<times> rng" where
  "Math_random r = (r 0, \<lambda>n. r (Suc n))"

definition valid_rng :: "rng \<Rightarrow> bool" where
  "valid_rng r = (\<forall>n. 0 \<le> r n \<and> r n < 1)"

record payload =
  question_id :: "uuid option"
  answer_id :: "uuid option"
  response_text :: string
  response_html :: string
  score :: rat

type_synonym best = "payload option \<times> rat \<times> rng"

text \<open>
  The inner loop over \<open>question.variants\<close>. Reading \<open>randomVariant.variant_text\<close> throws
  a TypeError when the index is outside the array, which a draw from \<open>[0, 1)\<close> never causes.
\<close>

fun variants_loop ::
  "string \<Rightarrow> question \<Rightarrow> answer \<Rightarrow> question_variant list \<Rightarrow> best \<Rightarrow> error + best" where
  "variants_loop lowerMessage q a [] st = Inr st"
| "variants_loop lowerMessage q a (variant # rest) (bestMatch, bestScore, r) =
     (let variantScore = calculateSimilarity lowerMessage (toLowerCase (qv_variant_text variant))
      in if variantScore > bestScore then
           (let answerVariants = a_variants a in
            if length answerVariants > 0 then
              (let (x, r') = Math_random r;
                   i = \<lfloor>x * of_nat (length answerVariants)\<rfloor>
               in if 0 \<le> i \<and> nat i < length answerVariants then
                    (let randomVariant = answerVariants ! nat i in
                     variants_loop lowerMessage q a rest
                       (Some \<lparr>question_id = Some (q_id q), answer_id = Some (a_id a),
                              response_text = av_variant_text randomVariant,
                              response_html = av_variant_html randomVariant,
                              score = variantScore\<rparr>, variantScore, r'))
                  else Inl TypeError)
            else variants_loop lowerMessage q a rest
                   (Some \<lparr>question_id = Some (q_id q), answer_id = Some (a_id a),
                          response_text = answer_text a, response_html = answer_html a,
                          score = variantScore\<rparr>, variantScore, r))
         else variants_loop lowerMessage q a rest (bestMatch, bestScore, r))"

text \<open>The outer loop over the loaded questions.\<close>

fun questions_loop :: "string \<Rightarrow> question list \<Rightarrow> best \<Rightarrow> error + best" where
  "questions_loop lowerMessage [] st = Inr st"
| "questions_loop lowerMessage (q # rest) (bestMatch, bestScore, r) =
     (case q_answer q of
        None \<Rightarrow> questions_loop lowerMessage rest (bestMatch, bestScore, r)
      | Some a \<Rightarrow>
          (let originalScore = calculateSimilarity lowerMessage (toLowerCase (question_text q));
               st = (if originalScore > bestScore
                     then (Some \<lparr>question_id = Some (q_id q), answer_id = Some (a_id a),
                                 response_text = answer_text a, response_html = answer_html a,
                                 score = originalScore\<rparr>, originalScore, r)
                     else (bestMatch, bestScore, r))
           in case variants_loop lowerMessage q a (q_variants q) st of
                Inl e \<Rightarrow> Inl e
              | Inr st' \<Rightarrow> questions_loop lowerMessage rest st'))"

definition no_information :: payload where
  "no_information =
     \<lparr>question_id = None, answer_id = None,
      response_text = ''I'm sorry, I don't have information about that topic. Could you please rephrase your question or ask about something else?'',
      response_html = ''I'm sorry, I don't have information about that topic. Could you please rephrase your question or ask about something else?'',
      score = 0\<rparr>"

definition technical_difficulties :: payload where
  "technical_difficulties =
     \<lparr>question_id = None, answer_id = None,
      response_text = ''I'm experiencing technical difficulties. Please try again later.'',
      response_html = ''I'm experiencing technical difficulties. Please try again later.'',
      score = 0\<rparr>"

text \<open>The body of the \<open>try\<close> block, then the function with its \<open>catch\<close>.\<close>

definition findMatchingAnswer_try :: "rng \<Rightarrow> database \<Rightarrow> uuid \<Rightarrow> jsval \<Rightarrow> error + payload" where
  "findMatchingAnswer_try r db agentId userMessage =
     (case userMessage of
        Str m \<Rightarrow>
          (let lowerMessage = trim (toLowerCase m) in
           case Question_findAll db agentId of
             Inl e \<Rightarrow> Inl e
           | Inr questions \<Rightarrow>
               (case questions_loop lowerMessage questions (None, 0, r) of
                  Inl e \<Rightarrow> Inl e
                | Inr (bestMatch, bestScore, r') \<Rightarrow>
                    (case bestMatch of
                       Some found \<Rightarrow>
                         if bestScore > 3 / 10 then Inr found else Inr no_information
                     | None \<Rightarrow> Inr no_information)))
      | _ \<Rightarrow> Inl TypeError)"

definition findMatchingAnswer :: "rng \<Rightarrow> database \<Rightarrow> uuid \<Rightarrow> jsval \<Rightarrow> payload" where
  "findMatchingAnswer r db agentId userMessage =
     (case findMatchingAnswer_try r db agentId userMessage of
        Inr response \<Rightarrow> response
      | Inl e \<Rightarrow> technical_difficulties)"

section \<open>String operations of the variant generator\<close>

text \<open>\<open>\w\<close>: an ASCII letter, a digit or the underscore.\<close>

definition is_word_char :: "char \<Rightarrow> bool" where
  "is_word_char c =
     (let n = of_char c :: nat in
      (48 \<le> n \<and> n \<le> 57) \<or> (65 \<le> n \<and> n \<le> 90) \<or> n = 95 \<or> (97 \<le> n \<and> n \<le> 122))"

text \<open>\<open>\b\<close> between two neighbours, \<open>None\<close> standing for an end of the string.\<close>

definition word_boundary :: "char option \<Rightarrow> char option \<Rightarrow> bool" where
  "word_boundary prev post =
     ((case prev of None \<Rightarrow> False | Some c \<Rightarrow> is_word_char c)
      \<noteq> (case post of None \<Rightarrow> False | Some c \<Rightarrow> is_word_char c))"

text \<open>A literal pattern under the \<open>i\<close> flag, matched at the head of the input.\<close>

fun ci_prefix :: "string \<Rightarrow> string \<Rightarrow> bool" where
  "ci_prefix [] s = True"
| "ci_prefix (p # ps) [] = False"
| "ci_prefix (p # ps) (c # cs) = (toUpperCase_char p = toUpperCase_char c \<and> ci_prefix ps cs)"

definition head_of :: "string \<Rightarrow> char option" where
  "head_of s = (case s of [] \<Rightarrow> None | c # _ \<Rightarrow> Some c)"

text \<open>
  A regular expression is given by what it does at one position: from the character
  before the position and the rest of the input, the replacement text and the length of
  the match. \<open>regex_replace_all\<close> is \<open>s.replace(regex, ...)\<close> under the \<open>g\<close> flag: matches
  are looked for from left to right, and the search goes on behind each match. The
  regular expressions of the source never match the empty string.
\<close>

type_synonym regex = "char option \<Rightarrow> string \<Rightarrow> (string \<times> nat) option"

function regex_replace_all :: "regex \<Rightarrow> char option \<Rightarrow> string \<Rightarrow> string" where
  "regex_replace_all re prev [] = []"
| "regex_replace_all re prev (c # cs) =
     (case re prev (c # cs) of
        Some (replacement, Suc n) \<Rightarrow>
          replacement @ regex_replace_all re (head_of (drop n (c # cs))) (drop (Suc n) (c # cs))
      | _ \<Rightarrow> c # regex_replace_all re (Some c) cs)"
  by pat_completeness auto
termination
  by (relation "measure (\<lambda>(re, prev, s). length s)") auto

text \<open>\<open>new RegExp(`\\b${original}\\b`, 'gi')\<close> and \<open>new RegExp(original, 'gi')\<close> for a literal.\<close>

definition word_regex :: "string \<Rightarrow> string \<Rightarrow> regex" where
  "word_regex original replacement prev s =
     (if ci_prefix original s
         \<and> word_boundary prev (head_of s)
         \<and> word_boundary (head_of (drop (length original - 1) s))
                          (head_of (drop (length original) s))
      then Some (replacement, length original) else None)"

definition literal_regex :: "string \<Rightarrow> string \<Rightarrow> regex" where
  "literal_regex original replacement prev s =
     (if ci_prefix original s then Some (replacement, length original) else None)"

text \<open>
  The three regular expressions of \<open>activePassiveSwitch\<close>. \<open>modal_regex\<close> is
  \<open>/I (can|will|should) (\w+)/gi\<close> (and the one for \<open>You\<close>) with its replacement
  \<open>The $2 ...\<close>; \<open>system_regex\<close> is \<open>/The system (\w+s)/gi\<close> with \<open>It is $1 by the system\<close>,
  where the greedy \<open>\w+\<close> gives characters back until an \<open>s\<close> follows it.
\<close>

definition modal_regex :: "string \<Rightarrow> string \<Rightarrow> regex" where
  "modal_regex subject suffix prev s =
     (if ci_prefix (subject @ '' '') s then
        (let s1 = drop (length subject + 1) s in
         case find (\<lambda>m. ci_prefix (m @ '' '') s1) [''can'', ''will'', ''should''] of
           None \<Rightarrow> None
         | Some m \<Rightarrow>
             (let w = takeWhile is_word_char (drop (length m + 1) s1) in
              if w = [] then None
              else Some (''The '' @ w @ suffix, length subject + 1 + length m + 1 + length w)))
      else None)"

definition system_regex :: regex where
  "system_regex prev s =
     (if ci_prefix ''The system '' s then
        (let w = takeWhile is_word_char (drop 11 s);
             ends = filter (\<lambda>k. 2 \<le> k \<and> toUpperCase_char (w ! (k - 1)) = CHR ''S'')
                      [0..<Suc (length w)]
         in if ends = [] then None
            else Some (''It is '' @ take (last ends) w @ '' by the system'', 11 + last ends))
      else None)"

text \<open>
  \<open>s.replace(pattern, replacement)\<close> with a string pattern: the first occurrence is
  replaced, and \<open>$$\<close>, \<open>$&\<close>, \<open>$`\<close> and \<open>$'\<close> in the replacement stand for a dollar sign,
  the match, the text before it and the text after it.
\<close>

fun get_substitution :: "string \<Rightarrow> string \<Rightarrow> string \<Rightarrow> string \<Rightarrow> string" where
  "get_substitution matched prev post (c # d # rest) =
     (if c = CHR ''$'' \<and> d = CHR ''$'' then CHR ''$'' # get_substitution matched prev post rest
      else if c = CHR ''$'' \<and> d = CHR ''&'' then matched @ get_substitution matched prev post rest
      else if c = CHR ''$'' \<and> d = CHR ''`'' then prev @ get_substitution matched prev post rest
      else if c = CHR ''$'' \<and> d = CHR 0x27 then post @ get_substitution matched prev post rest
      else c # get_substitution matched prev post (d # rest))"
| "get_substitution matched prev post s = s"

fun find_occurrence :: "string \<Rightarrow> string \<Rightarrow> string \<Rightarrow> (string \<times> string) option" where
  "find_occurrence pattern prev [] = (if pattern = [] then Some (prev, []) else None)"
| "find_occurrence pattern prev (c # cs) =
     (if startsWith (c # cs) pattern then Some (prev, drop (length pattern) (c # cs))
      else find_occurrence pattern (prev @ [c]) cs)"

definition str_replace :: "string \<Rightarrow> string \<Rightarrow> string \<Rightarrow> string" where
  "str_replace s pattern replacement =
     (case find_occurrence pattern [] s of
        None \<Rightarrow> s
      | Some (prev, post) \<Rightarrow>
          prev @ get_substitution pattern prev post replacement @ post)"

text \<open>\<open>s.split(sep)\<close> for a non-empty string \<open>sep\<close>, and \<open>xs.join(sep)\<close>.\<close>

function split_on_from :: "string \<Rightarrow> string \<Rightarrow> string \<Rightarrow> string list" where
  "split_on_from sep cur [] = [cur]"
| "split_on_from sep cur (c # cs) =
     (if sep \<noteq> [] \<and> startsWith (c # cs) sep
      then cur # split_on_from sep [] (drop (length sep) (c # cs))
      else split_on_from sep (cur @ [c]) cs)"
  by pat_completeness auto
termination
  by (relation "measure (\<lambda>(sep, cur, s). length s)") auto

definition split_on :: "string \<Rightarrow> string \<Rightarrow> string list" where
  "split_on sep s = split_on_from sep [] s"

fun join :: "string \<Rightarrow> string list \<Rightarrow> string" where
  "join sep [] = []"
| "join sep [x] = x"
| "join sep (x # y # ys) = x @ sep @ join sep (y # ys)"

text \<open>\<open>stripHtml\<close>: \<open>html.replace(/<[^>]*>/g, '').trim()\<close>. A \<open><\<close> opens a tag when a \<open>>\<close>
  follows somewhere; the tag ends at the first one.\<close>

definition tag_regex :: regex where
  "tag_regex prev s =
     (case s of
        [] \<Rightarrow> None
      | c # cs \<Rightarrow> if c = CHR ''<'' \<and> CHR ''>'' \<in> set cs
                  then Some ([], length (takeWhile (\<lambda>x. x \<noteq> CHR ''>'') cs) + 2) else None)"

definition stripHtml :: "jsval \<Rightarrow> error + string" where
  "stripHtml html =
     (case html of Str h \<Rightarrow> Inr (trim (regex_replace_all tag_regex None h)) | _ \<Rightarrow> Inl TypeError)"

section \<open>The paraphrase rules (services/textVariantService)\<close>

text \<open>
  What a rule returns: \<open>{text, html, confidence}\<close>; \<open>questionStyleVariation\<close> and the
  \<open>default\<close> branch return no confidence. A rule reads \<open>Math.random()\<close> and may throw, so
  it maps the random sequence to an error or to its result and the rest of the sequence.
\<close>

record rule_result =
  r_text :: string
  r_html :: jsval
  r_confidence :: "rat option"

type_synonym rule = "string \<Rightarrow> jsval \<Rightarrow> jsval \<Rightarrow> rng \<Rightarrow> error + (rule_result \<times> rng)"

text \<open>\<open>htmlContent ? htmlContent.replace(text, result) : result\<close>; a truthy value that is
  not a string has no \<open>replace\<close> method, and the call throws.\<close>

definition html_replace :: "jsval \<Rightarrow> string \<Rightarrow> string \<Rightarrow> error + jsval" where
  "html_replace htmlContent text result =
     (if truthy htmlContent then
        (case htmlContent of
           Str h \<Rightarrow> Inr (Str (str_replace h text result))
         | _ \<Rightarrow> Inl TypeError)
      else Inr (Str result))"

definition rule_return ::
  "jsval \<Rightarrow> string \<Rightarrow> string \<Rightarrow> rat \<Rightarrow> rng \<Rightarrow> error + (rule_result \<times> rng)" where
  "rule_return htmlContent text result confidence r =
     (case html_replace htmlContent text result of
        Inl e \<Rightarrow> Inl e
      | Inr h \<Rightarrow> Inr (\<lparr>r_text = result, r_html = h, r_confidence = Some confidence\<rparr>, r))"

text \<open>\<open>xs[Math.floor(Math.random() * xs.length)]\<close> inside a template literal: an index
  outside the array reads \<open>undefined\<close>, which prints as such.\<close>

definition random_element :: "string list \<Rightarrow> rng \<Rightarrow> string \<times> rng" where
  "random_element xs r =
     (let (x, r') = Math_random r; i = \<lfloor>x * of_nat (length xs)\<rfloor>
      in (if 0 \<le> i \<and> nat i < length xs then xs ! nat i else ''undefined'', r'))"

text \<open>\<open>Object.entries(map).forEach\<close> with one \<open>\bword\b\<close> replacement per entry, each
  applied when \<open>Math.random() > 0.7\<close>.\<close>

fun gated_replace :: "(string \<times> string) list \<Rightarrow> string \<Rightarrow> rng \<Rightarrow> string \<times> rng" where
  "gated_replace [] result r = (result, r)"
| "gated_replace ((original, replacement) # rest) result r =
     (let (x, r') = Math_random r
      in gated_replace rest
           (if x > 7 / 10 then regex_replace_all (word_regex original replacement) None result
            else result) r')"

text \<open>The same loop without the random test, for a table of literals.\<close>

fun replace_each ::
  "(string \<Rightarrow> string \<Rightarrow> regex) \<Rightarrow> (string \<times> string) list \<Rightarrow> string \<Rightarrow> string" where
  "replace_each mk [] result = result"
| "replace_each mk ((original, replacement) # rest) result =
     replace_each mk rest (regex_replace_all (mk original replacement) None result)"

definition synonymMap :: "(string \<times> string) list" where
  "synonymMap =
     [(''how'', ''in what way''), (''what'', ''which''), (''why'', ''for what reason''),
      (''when'', ''at what time''), (''where'', ''in which location''),
      (''can'', ''is it possible to''), (''will'', ''shall''), (''would'', ''could''),
      (''should'', ''ought to''), (''help'', ''assist''), (''show'', ''display''),
      (''explain'', ''describe''), (''tell'', ''inform''), (''find'', ''locate''),
      (''get'', ''obtain''), (''make'', ''create''), (''use'', ''utilize''),
      (''need'', ''require''), (''want'', ''desire''), (''process'', ''procedure''),
      (''method'', ''approach''), (''system'', ''platform''), (''feature'', ''functionality''),
      (''option'', ''choice''), (''setting'', ''configuration''), (''data'', ''information''),
      (''user'', ''person''), (''admin'', ''administrator''), (''manage'', ''handle'')]"

definition synonymReplacement :: rule where
  "synonymReplacement text type htmlContent r =
     (let (result, r') = gated_replace synonymMap text r
      in rule_return htmlContent text result (9 / 10) r')"

definition sentenceRestructuring :: rule where
  "sentenceRestructuring text type htmlContent r =
     (let result =
        (if type = Str ''question'' then
           (if startsWith (toLowerCase text) ''how do i''
              then ''What is the process to'' @ drop 8 text
            else if startsWith (toLowerCase text) ''what is''
              then ''Could you explain what'' @ drop 7 text
            else if startsWith (toLowerCase text) ''can i''
              then ''Is it possible for me to'' @ drop 5 text
            else if startsWith (toLowerCase text) ''where''
              then ''In what location'' @ drop 5 text
            else text)
         else
           (let sentences = split_on ''. '' text in
            if length sentences > 1
            then join ''. '' (sentences ! 1 # sentences ! 0 # drop 2 sentences)
            else text))
      in rule_return htmlContent text result (8 / 10) r)"

definition formalToInformal :: "(string \<times> string) list" where
  "formalToInformal =
     [(''utilize'', ''use''), (''commence'', ''start''), (''terminate'', ''end''),
      (''facilitate'', ''help''), (''endeavor'', ''try''), (''accomplish'', ''do''),
      (''subsequently'', ''then''), (''prior to'', ''before''), (''in order to'', ''to'')]"

definition informalToFormal :: "(string \<times> string) list" where
  "informalToFormal =
     [(''use'', ''utilize''), (''start'', ''commence''), (''end'', ''terminate''),
      (''help'', ''facilitate''), (''try'', ''endeavor''), (''do'', ''accomplish''),
      (''then'', ''subsequently''), (''before'', ''prior to''), (''to'', ''in order to'')]"

definition formalInformalSwitch :: rule where
  "formalInformalSwitch text type htmlContent r =
     (let (x, r') = Math_random r;
          mapToUse = (if x > 1 / 2 then formalToInformal else informalToFormal);
          result = replace_each word_regex mapToUse text
      in rule_return htmlContent text result (85 / 100) r')"

fun activePassive_loop :: "regex list \<Rightarrow> string \<Rightarrow> rng \<Rightarrow> string \<times> rng" where
  "activePassive_loop [] result r = (result, r)"
| "activePassive_loop (pattern # rest) result r =
     (let (x, r') = Math_random r
      in activePassive_loop rest
           (if x > 6 / 10 then regex_replace_all pattern None result else result) r')"

definition activeToPassive :: "regex list" where
  "activeToPassive =
     [modal_regex ''I'' '' process can be'',
      modal_regex ''You'' '' action can be performed'',
      system_regex]"

definition activePassiveSwitch :: rule where
  "activePassiveSwitch text type htmlContent r =
     (let (result, r') = activePassive_loop activeToPassive text r
      in rule_return htmlContent text result (7 / 10) r')"

definition questionStarters :: "string list" where
  "questionStarters =
     [''Could you please explain'', ''I would like to know'', ''Can you help me understand'',
      ''I need information about'', ''Please tell me'']"

definition questionStyleVariation :: rule where
  "questionStyleVariation text type htmlContent r =
     (if type \<noteq> Str ''question''
      then Inr (\<lparr>r_text = text, r_html = htmlContent, r_confidence = None\<rparr>, r)
      else if list_ex (\<lambda>w. ci_prefix w text)
                [''how'', ''what'', ''when'', ''where'', ''why'', ''can'', ''could'', ''would'',
                 ''should'']
      then rule_return htmlContent text text (8 / 10) r
      else (let (starter, r') = random_element questionStarters r;
                result = starter @ '' '' @ toLowerCase text
            in rule_return htmlContent text result (8 / 10) r'))"

definition contractions :: "(string \<times> string) list" where
  "contractions =
     [(''can't'', ''cannot''), (''won't'', ''will not''), (''don't'', ''do not''),
      (''doesn't'', ''does not''), (''isn't'', ''is not''), (''aren't'', ''are not''),
      (''wasn't'', ''was not''), (''weren't'', ''were not''), (''haven't'', ''have not''),
      (''hasn't'', ''has not''), (''shouldn't'', ''should not''), (''wouldn't'', ''would not''),
      (''couldn't'', ''could not'')]"

definition expansions :: "(string \<times> string) list" where
  "expansions = map (\<lambda>(key, val). (val, key)) contractions"

definition expandContract :: rule where
  "expandContract text type htmlContent r =
     (let (x, r') = Math_random r;
          mapToUse = (if x > 1 / 2 then contractions else expansions);
          result = replace_each literal_regex mapToUse text
      in rule_return htmlContent text result (9 / 10) r')"

definition changeOrder :: rule where
  "changeOrder text type htmlContent r =
     (let result =
        (if type = Str ''question'' then
           (let ws = split_on '' '' text in
            if length ws > 3 \<and>
               toLowerCase (hd ws) \<in> set [''how'', ''what'', ''when'', ''where'', ''why'']
            then (let questionWord = hd ws; ws' = tl ws;
                      moved = join '' '' (take 2 ws' @ [toLowerCase questionWord] @ drop 2 ws')
                  in toUpperCase (take 1 moved) @ drop 1 moved)
            else text)
         else text)
      in rule_return htmlContent text result (6 / 10) r)"

definition emphasisWords :: "string list" where
  "emphasisWords = [''particularly'', ''specifically'', ''especially'', ''exactly'', ''precisely'']"

definition shiftEmphasis :: rule where
  "shiftEmphasis text type htmlContent r =
     (let (emphasis, r') = random_element emphasisWords r;
          result =
            (if type = Str ''question''
             then regex_replace_all (literal_regex ''what'' (''what '' @ emphasis)) None
                    (regex_replace_all (literal_regex ''how'' (''how '' @ emphasis)) None text)
             else text)
      in if truthy htmlContent then
           (case htmlContent of
              Str h \<Rightarrow>
                (let htmlResult = Str (str_replace h text result) in
                 Inr (\<lparr>r_text = result,
                       r_html = (if truthy htmlResult then htmlResult else Str result),
                       r_confidence = Some (7 / 10)\<rparr>, r'))
            | _ \<Rightarrow> Inl TypeError)
         else Inr (\<lparr>r_text = result, r_html = Str result, r_confidence = Some (7 / 10)\<rparr>, r'))"

definition perspectiveMap :: "(string \<times> string) list" where
  "perspectiveMap =
     [(''I'', ''you''), (''me'', ''you''), (''my'', ''your''), (''mine'', ''yours''),
      (''you'', ''one''), (''your'', ''one's''), (''yours'', ''one's'')]"

definition changePerspective :: rule where
  "changePerspective text type htmlContent r =
     (let (result, r') = gated_replace perspectiveMap text r
      in rule_return htmlContent text result (6 / 10) r')"

definition contexts :: "string list" where
  "contexts =
     [''In this system,'', ''For this application,'', ''When using this platform,'',
      ''In the context of this demo,'']"

definition contextualVariation :: rule where
  "contextualVariation text type htmlContent r =
     (if type = Str ''question'' then
        (let (x, r') = Math_random r in
         if x > 1 / 2
         then (let (context, r'') = random_element contexts r';
                   result = context @ '' '' @ toLowerCase text
               in rule_return htmlContent text result (8 / 10) r'')
         else rule_return htmlContent text text (8 / 10) r')
      else rule_return htmlContent text text (8 / 10) r)"

text \<open>\<open>applyParaphraseTechnique\<close>: \<open>stripHtml(text)\<close> throws unless \<open>text\<close> is a string.\<close>

definition applyParaphraseTechnique ::
  "jsval \<Rightarrow> string \<Rightarrow> jsval \<Rightarrow> jsval \<Rightarrow> rng \<Rightarrow> error + (rule_result \<times> rng)" where
  "applyParaphraseTechnique text technique type htmlContent r =
     (case stripHtml text of
        Inl e \<Rightarrow> Inl e
      | Inr cleanText \<Rightarrow>
          (if technique = ''synonymReplacement'' then synonymReplacement cleanText type htmlContent r
           else if technique = ''sentenceRestructuring''
             then sentenceRestructuring cleanText type htmlContent r
           else if technique = ''formalInformal'' then formalInformalSwitch cleanText type htmlContent r
           else if technique = ''activePassive'' then activePassiveSwitch cleanText type htmlContent r
           else if technique = ''questionStyle'' then questionStyleVariation cleanText type htmlContent r
           else if technique = ''expandContract'' then expandContract cleanText type htmlContent r
           else if technique = ''orderChange'' then changeOrder cleanText type htmlContent r
           else if technique = ''emphasisShift'' then shiftEmphasis cleanText type htmlContent r
           else if technique = ''perspectiveChange'' then changePerspective cleanText type htmlContent r
           else if technique = ''contextualVariation''
             then contextualVariation cleanText type htmlContent r
           else Inr (\<lparr>r_text = cleanText, r_html = htmlContent, r_confidence = None\<rparr>, r)))"

section \<open>\<open>generateVariants\<close> and \<open>generateCreativeVariants\<close>\<close>

text \<open>
  An entry of the returned array. The id is the number \<open>index + 1\<close> for a technique and
  the string \<open>creative_<index + 1>\<close> for a combination.
\<close>

record variant =
  v_id :: jsval
  v_text :: jsval
  v_html :: jsval
  v_technique :: string
  v_confidence :: rat

definition digit_char :: "nat \<Rightarrow> char" where
  "digit_char n = char_of (48 + n)"

function number_to_string :: "nat \<Rightarrow> string" where
  "number_to_string n =
     (if n < 10 then [digit_char n] else number_to_string (n div 10) @ [digit_char (n mod 10)])"
  by pat_completeness auto
termination
  by (relation "measure id") auto

declare number_to_string.simps [simp del]

text \<open>\<open>a || b\<close> on values.\<close>

definition or_else :: "jsval \<Rightarrow> jsval \<Rightarrow> jsval" where
  "or_else a b = (if truthy a then a else b)"

text \<open>
  The test \<open>variant && variant !== originalText\<close> of the \<open>forEach\<close> callback. Its left
  operand is the object a rule returned, its right operand the source text, a primitive
  value: an object is truthy, and strict inequality compares the two operands themselves,
  which are of different kinds. The test does not read \<open>variant.text\<close>.
\<close>

datatype operand = Object rule_result | Primitive jsval

definition is_new_variant :: "rule_result \<Rightarrow> jsval \<Rightarrow> bool" where
  "is_new_variant variant originalText = (Object variant \<noteq> Primitive originalText)"

fun techniques_forEach ::
  "jsval \<Rightarrow> jsval \<Rightarrow> jsval \<Rightarrow> string list \<Rightarrow> nat \<Rightarrow> variant list \<Rightarrow> rng
     \<Rightarrow> error + (variant list \<times> rng)" where
  "techniques_forEach originalText type htmlContent [] index variants r = Inr (variants, r)"
| "techniques_forEach originalText type htmlContent (technique # rest) index variants r =
     (case applyParaphraseTechnique originalText technique type htmlContent r of
        Inl e \<Rightarrow> Inl e
      | Inr (variant, r') \<Rightarrow>
          techniques_forEach originalText type htmlContent rest (index + 1)
            (if is_new_variant variant originalText
             then variants @
                  [\<lparr>v_id = Num (int (index + 1)), v_text = Str (r_text variant),
                    v_html = or_else (r_html variant) (Str (r_text variant)),
                    v_technique = technique,
                    v_confidence = (case r_confidence variant of Some c \<Rightarrow> c | None \<Rightarrow> 8 / 10)\<rparr>]
             else variants) r')"

definition techniques :: "string list" where
  "techniques =
     [''synonymReplacement'', ''sentenceRestructuring'', ''formalInformal'', ''activePassive'',
      ''questionStyle'', ''expandContract'', ''orderChange'', ''emphasisShift'',
      ''perspectiveChange'', ''contextualVariation'']"

text \<open>The inner \<open>forEach\<close> of \<open>generateCreativeVariants\<close>: the techniques of one combination
  applied in sequence, each to the text and html of the previous result.\<close>

fun combination_forEach ::
  "string list \<Rightarrow> jsval \<Rightarrow> jsval \<Rightarrow> jsval \<Rightarrow> rng \<Rightarrow> error + ((jsval \<times> jsval) \<times> rng)" where
  "combination_forEach [] type text html r = Inr ((text, html), r)"
| "combination_forEach (technique # rest) type text html r =
     (case applyParaphraseTechnique text technique type html r of
        Inl e \<Rightarrow> Inl e
      | Inr (result, r') \<Rightarrow>
          combination_forEach rest type (Str (r_text result)) (r_html result) r')"

fun combinations_forEach ::
  "jsval \<Rightarrow> jsval \<Rightarrow> jsval \<Rightarrow> string list list \<Rightarrow> nat \<Rightarrow> variant list \<Rightarrow> rng
     \<Rightarrow> error + (variant list \<times> rng)" where
  "combinations_forEach originalText type htmlContent [] index variants r = Inr (variants, r)"
| "combinations_forEach originalText type htmlContent (combination # rest) index variants r =
     (case combination_forEach combination type originalText htmlContent r of
        Inl e \<Rightarrow> Inl e
      | Inr ((text, html), r') \<Rightarrow>
          combinations_forEach originalText type htmlContent rest (index + 1)
            (if text \<noteq> originalText
             then variants @
                  [\<lparr>v_id = Str (''creative_'' @ number_to_string (index + 1)),
                    v_text = text,
                    v_html = or_else html text,
                    v_technique = ''combined_'' @ join ''_'' combination,
                    v_confidence = 7 / 10\<rparr>]
             else variants) r')"

definition combinations :: "string list list" where
  "combinations =
     [[''synonymReplacement'', ''formalInformal''],
      [''sentenceRestructuring'', ''expandContract''],
      [''questionStyle'', ''emphasisShift''],
      [''contextualVariation'', ''synonymReplacement'']]"

definition generateCreativeVariants ::
  "jsval \<Rightarrow> jsval \<Rightarrow> jsval \<Rightarrow> rng \<Rightarrow> error + (variant list \<times> rng)" where
  "generateCreativeVariants originalText type htmlContent r =
     combinations_forEach originalText type htmlContent combinations 0 [] r"

text \<open>The body of the \<open>try\<close> block of \<open>generateVariants\<close>, with the default values of the
  parameters, and the function with its \<open>catch\<close>.\<close>

definition with_default :: "jsval \<Rightarrow> jsval \<Rightarrow> jsval" where
  "with_default v d = (if v = Undefined then d else v)"

definition generateVariants_try :: "rng \<Rightarrow> jsval \<Rightarrow> jsval \<Rightarrow> jsval \<Rightarrow> error + variant list" where
  "generateVariants_try r originalText type0 htmlContent0 =
     (let type = with_default type0 (Str ''question'');
          htmlContent = with_default htmlContent0 Null
      in case techniques_forEach originalText type htmlContent techniques 0 [] r of
           Inl e \<Rightarrow> Inl e
         | Inr (variants, r') \<Rightarrow>
             (case generateCreativeVariants originalText type htmlContent r' of
                Inl e \<Rightarrow> Inl e
              | Inr (creativeVariants, r'') \<Rightarrow> Inr (take 12 (variants @ creativeVariants))))"

definition generateVariants :: "rng \<Rightarrow> jsval \<Rightarrow> jsval \<Rightarrow> jsval \<Rightarrow> variant list" where
  "generateVariants r originalText type htmlContent =
     (case generateVariants_try r originalText type htmlContent of
        Inr variants \<Rightarrow> variants
      | Inl e \<Rightarrow> [])"

section \<open>Updating a question (\<open>PUT /admin/questions/:id\<close>, routes/admin)\<close>

text \<open>
  The request body as the handler reads it. The three validators of the route
  (\<open>trim().isLength({ min: 1 })\<close>, from the express-validator library) replace a text field
  by its trimmed value and report an error when that is empty; the text fields are taken
  to be strings. \<open>status\<close> is \<open>Undefined\<close> when the request has none.
\<close>

record request_body =
  b_question_text :: string
  b_answer_text :: string
  b_answer_html :: string
  b_status :: jsval

definition validation_errors :: "request_body \<Rightarrow> bool" where
  "validation_errors body =
     (trim (b_question_text body) = [] \<or> trim (b_answer_text body) = []
      \<or> trim (b_answer_html body) = [])"

definition sanitized :: "request_body \<Rightarrow> request_body" where
  "sanitized body =
     body\<lparr>b_question_text := trim (b_question_text body),
          b_answer_text := trim (b_answer_text body),
          b_answer_html := trim (b_answer_html body)\<rparr>"

text \<open>The HTTP status of the response.\<close>

datatype response = Status200 | Status400 | Status404 | Status500

text \<open>A value written to the \<open>ENUM('Draft', 'Final')\<close> column; any other value is rejected
  and the update throws.\<close>

definition status_column :: "jsval \<Rightarrow> error + status" where
  "status_column v =
     (if v = Str ''Draft'' then Inr Draft else if v = Str ''Final'' then Inr Final
      else Inl StorageError)"

text \<open>A value written to a \<open>TEXT\<close> column; the generator hands over strings only.\<close>

definition text_column :: "jsval \<Rightarrow> string" where
  "text_column v = (case v of Str s \<Rightarrow> s | _ \<Rightarrow> [])"

text \<open>\<open>instance.update\<close>: the row with the primary key of the instance is replaced.\<close>

definition save_question :: "question \<Rightarrow> question list \<Rightarrow> question list" where
  "save_question q rows = map (\<lambda>q'. if q_id q' = q_id q then q else q') rows"

text \<open>
  The handler. A store that is down fails \<open>findByPk\<close>, and the \<open>catch\<close> answers 500. When
  the question has no answer, \<open>question.answer.update\<close> throws after the question itself
  has been updated. The two calls of \<open>generateVariants\<close> read their own random draws.
\<close>

definition updateQuestion ::
  "rng \<Rightarrow> rng \<Rightarrow> database \<Rightarrow> uuid \<Rightarrow> request_body \<Rightarrow> response \<times> database" where
  "updateQuestion rq ra db ident body0 =
     (if validation_errors body0 then (Status400, db)
      else
        (let body = sanitized body0 in
         case db of
           Unavailable \<Rightarrow> (Status500, db)
         | Connected rows \<Rightarrow>
             (case find (\<lambda>q. q_id q = ident) rows of
                None \<Rightarrow> (Status404, db)
              | Some question \<Rightarrow>
                  (case status_column (or_else (b_status body) (Str ''Draft'')) of
                     Inl e \<Rightarrow> (Status500, db)
                   | Inr st \<Rightarrow>
                       (let question1 =
                              question\<lparr>question_text := b_question_text body, q_status := st\<rparr>
                        in case q_answer question of
                             None \<Rightarrow> (Status500, Connected (save_question question1 rows))
                           | Some answer \<Rightarrow>
                               (let answer1 =
                                      answer\<lparr>answer_text := b_answer_text body,
                                             answer_html := b_answer_html body,
                                             a_status := st\<rparr>;
                                    questionVariants =
                                      generateVariants rq (Str (b_question_text body))
                                        (Str ''question'') Undefined;
                                    answerVariants =
                                      generateVariants ra (Str (b_answer_text body))
                                        (Str ''answer'') (Str (b_answer_html body));
                                    question2 =
                                      question1
                                        \<lparr>q_answer :=
                                           Some (answer1
                                             \<lparr>a_variants :=
                                                map (\<lambda>variant.
                                                       \<lparr>av_variant_text = text_column (v_text variant),
                                                        av_variant_html = text_column (v_html variant),
                                                        av_is_approved = True\<rparr>)
                                                    answerVariants\<rparr>),
                                         q_variants :=
                                           map (\<lambda>variant.
                                                  \<lparr>qv_variant_text = text_column (v_text variant),
                                                   qv_is_approved = True\<rparr>)
                                               questionVariants\<rparr>
                                in (Status200, Connected (save_question question2 rows))))))))"

section \<open>Notions used to state the properties of the generator\<close>

text \<open>
  \<open>html_ok\<close>: an html argument on which \<open>htmlContent ? htmlContent.replace(...) : ...\<close> does
  not throw, that is, a falsy value or a string. \<open>rule_ok\<close>: a rule that returns on every
  such argument, with such an html. \<open>creative_id k\<close> is the id \<open>creative_k\<close>.
\<close>

definition html_ok :: "jsval \<Rightarrow> bool" where
  "html_ok h = (case h of Str s \<Rightarrow> True | _ \<Rightarrow> \<not> truthy h)"

definition rule_ok :: "rule \<Rightarrow> bool" where
  "rule_ok f = (\<forall>t type htmlContent r. html_ok htmlContent \<longrightarrow>
      (\<exists>res r'. f t type htmlContent r = Inr (res, r') \<and> html_ok (r_html res)))"

definition creative_id :: "nat \<Rightarrow> jsval" where
  "creative_id k = Str (''creative_'' @ number_to_string k)"

section \<open>Notions used to state the properties of the matcher\<close>

text \<open>
  The candidates of a loaded question are its own text and the texts of its (approved)
  variants; \<open>pool_scores\<close> lists the scores of all candidates of the loaded questions and
  \<open>best_score\<close> is their maximum (0 when there is no candidate: scores are never negative).
\<close>

definition variant_score :: "string \<Rightarrow> question_variant \<Rightarrow> rat" where
  "variant_score lm v = calculateSimilarity lm (toLowerCase (qv_variant_text v))"

definition original_score :: "string \<Rightarrow> question \<Rightarrow> rat" where
  "original_score lm q = calculateSimilarity lm (toLowerCase (question_text q))"

definition candidate_scores :: "string \<Rightarrow> question \<Rightarrow> rat list" where
  "candidate_scores lm q = original_score lm q # map (variant_score lm) (q_variants q)"

definition pool_scores :: "string \<Rightarrow> question list \<Rightarrow> rat list" where
  "pool_scores lm qs = concat (map (candidate_scores lm) (filter (\<lambda>q. q_answer q \<noteq> None) qs))"

definition best_score :: "string \<Rightarrow> question list \<Rightarrow> rat" where
  "best_score lm qs = Max (insert 0 (set (pool_scores lm qs)))"

text \<open>
  \<open>answers_with a p\<close>: the answer text and html of payload \<open>p\<close> are those of an approved
  variant of answer \<open>a\<close> when it has one, and the canonical ones otherwise. \<open>hit\<close> and
  \<open>resolves\<close> say that a payload is the resolution of a candidate of question \<open>q\<close> whose
  score is the payload's score: the question's own text resolves to the canonical answer,
  a variant's text to \<open>answers_with\<close>.
\<close>

definition answers_with :: "answer \<Rightarrow> payload \<Rightarrow> bool" where
  "answers_with a p =
     (if a_variants a = [] then response_text p = answer_text a \<and> response_html p = answer_html a
      else \<exists>av \<in> set (a_variants a).
             response_text p = av_variant_text av \<and> response_html p = av_variant_html av)"

definition hit :: "string \<Rightarrow> question \<Rightarrow> answer \<Rightarrow> question_variant list \<Rightarrow> payload \<Rightarrow> bool" where
  "hit lm q a vs p =
     (question_id p = Some (q_id q) \<and> answer_id p = Some (a_id a)
      \<and> (\<exists>v \<in> set vs. variant_score lm v = score p) \<and> answers_with a p)"

definition resolves :: "string \<Rightarrow> question \<Rightarrow> payload \<Rightarrow> bool" where
  "resolves lm q p =
     (case q_answer q of
        None \<Rightarrow> False
      | Some a \<Rightarrow>
          question_id p = Some (q_id q) \<and> answer_id p = Some (a_id a) \<and>
          (original_score lm q = score p \<and> response_text p = answer_text a
             \<and> response_html p = answer_html a
           \<or> (\<exists>v \<in> set (q_variants q). variant_score lm v = score p) \<and> answers_with a p))"

text \<open>Two payloads for the same question and answer that carry approved answer variants.\<close>

definition differ_by_answer_variant :: "question \<Rightarrow> payload \<Rightarrow> payload \<Rightarrow> bool" where
  "differ_by_answer_variant q p1 p2 =
     (case q_answer q of
        None \<Rightarrow> False
      | Some a \<Rightarrow>
          question_id p1 = Some (q_id q) \<and> question_id p2 = Some (q_id q) \<and>
          answer_id p1 = Some (a_id a) \<and> answer_id p2 = Some (a_id a) \<and>
          score p1 = score p2 \<and>
          (\<exists>av \<in> set (a_variants a).
             response_text p1 = av_variant_text av \<and> response_html p1 = av_variant_html av) \<and>
          (\<exists>av \<in> set (a_variants a).
             response_text p2 = av_variant_text av \<and> response_html p2 = av_variant_html av))"

definition related :: "question list \<Rightarrow> payload option \<Rightarrow> payload option \<Rightarrow> bool" where
  "related qs b1 b2 =
     (b1 = b2 \<or> (\<exists>p1 p2. b1 = Some p1 \<and> b2 = Some p2 \<and> (\<exists>q \<in> set qs. differ_by_answer_variant q p1 p2)))"

text \<open>Draft material: a question that is a draft, or whose answer is.\<close>

definition is_draft :: "question \<Rightarrow> bool" where
  "is_draft q =
     (q_status q = Draft \<or> (case q_answer q of None \<Rightarrow> False | Some a \<Rightarrow> a_status a = Draft))"

text \<open>Stored data for the examples: one published question with its answer and variants.\<close>

definition return_policy_answer :: answer where
  "return_policy_answer =
     \<lparr>a_id = ''a-1'', answer_text = ''You can return items within 30 days.'',
      answer_html = ''<p>You can return items within 30 days.</p>'', a_status = Final,
      a_variants = [\<lparr>av_variant_text = ''Items can be returned within 30 days.'',
                     av_variant_html = ''<p>Items can be returned within 30 days.</p>'',
                     av_is_approved = True\<rparr>,
                    \<lparr>av_variant_text = ''Returns are accepted for 30 days.'',
                     av_variant_html = ''<p>Returns are accepted for 30 days.</p>'',
                     av_is_approved = True\<rparr>]\<rparr>"

definition return_policy_question :: question where
  "return_policy_question =
     \<lparr>q_id = ''q-1'', agent_id = ''agent-x'', question_text = ''What is your return policy?'',
      q_status = Final, q_answer = Some return_policy_answer,
      q_variants = [\<lparr>qv_variant_text = ''Could you explain what your return policy?'',
                     qv_is_approved = True\<rparr>,
                    \<lparr>qv_variant_text = ''How can items be sent back'',
                     qv_is_approved = True\<rparr>]\<rparr>"

text \<open>The random choices that all come out as 0.\<close>

definition zero_draws :: rng where
  "zero_draws = (\<lambda>_. 0)"

text \<open>An update request that carries no status.\<close>

definition edit_without_status :: request_body where
  "edit_without_status =
     \<lparr>b_question_text = '' Where is my order? '', b_answer_text = ''It is on its way.'',
      b_answer_html = ''<p>It is on its way.</p>'', b_status = Undefined\<rparr>"

section \<open>Properties of the similarity score\<close>

lemma count_matches_le: "count_matches ws1 ws2 \<le> length ws1"
  by (induction ws1) auto

lemma has_match_sym:
  "has_match w1 ws2 \<longleftrightarrow> (\<exists>w2 \<in> set ws2. includes_str w1 w2 \<or> includes_str w2 w1)"
  by (induction ws2) auto

lemma count_matches_zero_iff:
  "count_matches ws1 ws2 = 0 \<longleftrightarrow> (\<forall>w1 \<in> set ws1. \<not> has_match w1 ws2)"
  by (induction ws1) auto

lemma count_matches_zero_sym:
  "count_matches ws1 ws2 = 0 \<longleftrightarrow> count_matches ws2 ws1 = 0"
  unfolding count_matches_zero_iff has_match_sym by blast

text \<open>
  C6: the score lies in the closed interval from 0 to 1, and it is 0 whenever one of the
  two strings has no token of more than two characters, in particular for the empty string.
\<close>

theorem calculateSimilarity_range:
  "0 \<le> calculateSimilarity a b \<and> calculateSimilarity a b \<le> 1
   \<and> (words a = [] \<or> words b = [] \<longrightarrow> calculateSimilarity a b = 0)
   \<and> calculateSimilarity [] b = 0 \<and> calculateSimilarity a [] = 0"
proof -
  have e: "words [] = []"
    by (simp add: words_def split_ws_def)
  have "count_matches (words a) (words b) \<le> max (length (words a)) (length (words b))"
    using count_matches_le [of "words a" "words b"] by simp
  then have "(of_nat (count_matches (words a) (words b)) :: rat)
      \<le> of_nat (max (length (words a)) (length (words b)))"
    by (simp only: of_nat_le_iff)
  then show ?thesis
    by (auto simp add: calculateSimilarity_def Let_def e divide_le_eq_1 less_max_iff_disj)
qed

theorem calculateSimilarity_range_witness:
  "words '' a of '' = [] \<and> calculateSimilarity '' a of '' ''anything'' = 0
   \<and> calculateSimilarity ''return policy'' ''what is your return policy'' = 1/2"
proof -
  have w: "words '' a of '' = []"
    by (simp add: words_def split_ws_def is_space_def)
  have "calculateSimilarity '' a of '' ''anything'' = 0"
    using calculateSimilarity_range [of "'' a of ''" "''anything''"] w by simp
  moreover have "calculateSimilarity ''return policy'' ''what is your return policy'' = 1/2"
    by (simp add: calculateSimilarity_def words_def split_ws_def is_space_def)
  ultimately show ?thesis using w by simp
qed

text \<open>
  C5 (as stated, refuted): the score is not symmetric. With \<open>abc abc\<close> against \<open>abc xyz\<close>
  both tokens of the first string match, which gives 1; in the other order only one of
  two tokens matches, which gives 1/2.
\<close>

theorem calculateSimilarity_not_symmetric:
  "calculateSimilarity ''abc abc'' ''abc xyz'' \<noteq> calculateSimilarity ''abc xyz'' ''abc abc''"
  by (simp add: calculateSimilarity_def words_def split_ws_def is_space_def)

text \<open>
  C5 (amended): both orders divide by the same number of tokens and use the same
  symmetric test on a pair of tokens, but each counts the matching tokens of its first
  argument. So the two scores are equal exactly when a token list is empty or the two
  counts agree, and one score is 0 exactly when the other is.
\<close>

theorem calculateSimilarity_sym_iff:
  "(calculateSimilarity a b = calculateSimilarity b a \<longleftrightarrow>
      words a = [] \<or> words b = [] \<or>
      count_matches (words a) (words b) = count_matches (words b) (words a))
   \<and> (calculateSimilarity a b = 0 \<longleftrightarrow> calculateSimilarity b a = 0)"
  using count_matches_zero_sym [of "words a" "words b"]
  by (auto simp add: calculateSimilarity_def Let_def max.commute)

theorem calculateSimilarity_sym_iff_witness:
  "calculateSimilarity ''reset password'' ''password reset'' =
   calculateSimilarity ''password reset'' ''reset password''"
proof -
  have "count_matches (words ''reset password'') (words ''password reset'') =
        count_matches (words ''password reset'') (words ''reset password'')"
    by (simp add: words_def split_ws_def is_space_def)
  then show ?thesis
    using calculateSimilarity_sym_iff [of "''reset password''" "''password reset''"] by blast
qed

section \<open>Properties of the matcher\<close>

lemma valid_rng_next: "valid_rng r \<Longrightarrow> valid_rng (snd (Math_random r))"
  by (simp add: valid_rng_def Math_random_def)

lemma valid_rng_draw: "valid_rng r \<Longrightarrow> 0 \<le> fst (Math_random r) \<and> fst (Math_random r) < 1"
  by (simp add: valid_rng_def Math_random_def)

lemma random_index_in_range:
  assumes "0 \<le> (x::rat)" "x < 1" "0 < n"
  shows "0 \<le> \<lfloor>x * of_nat n\<rfloor> \<and> nat \<lfloor>x * of_nat n\<rfloor> < n"
proof -
  have "x * of_nat n < of_nat n" using assms by simp
  then have "\<lfloor>x * of_nat n\<rfloor> < int n"
    by (simp add: floor_less_iff)
  moreover have "0 \<le> \<lfloor>x * of_nat n\<rfloor>" using assms by simp
  ultimately show ?thesis by linarith
qed

lemma fold_max_ge: "(b::rat) \<le> fold max xs b"
proof (induction xs arbitrary: b)
  case Nil
  show ?case by simp
next
  case (Cons x xs)
  have "b \<le> max x b" by simp
  also have "\<dots> \<le> fold max xs (max x b)" by (rule Cons.IH)
  finally show ?case by simp
qed

lemma hit_Cons: "hit lm q a vs p \<Longrightarrow> hit lm q a (v # vs) p"
  by (auto simp: hit_def)

lemma variants_loop_step:
  assumes "valid_rng r" "bs < variant_score lm v"
  shows "\<exists>p r'. variants_loop lm q a (v # vs) (bm, bs, r)
                 = variants_loop lm q a vs (Some p, variant_score lm v, r')
           \<and> valid_rng r' \<and> score p = variant_score lm v \<and> hit lm q a (v # vs) p"
proof (cases "a_variants a = []")
  case True
  let ?p = "\<lparr>question_id = Some (q_id q), answer_id = Some (a_id a),
             response_text = answer_text a, response_html = answer_html a,
             score = variant_score lm v\<rparr>"
  have "variants_loop lm q a (v # vs) (bm, bs, r)
        = variants_loop lm q a vs (Some ?p, variant_score lm v, r)"
    using True assms(2) by (simp add: variant_score_def Let_def)
  moreover have "hit lm q a (v # vs) ?p"
    using True by (simp add: hit_def answers_with_def)
  ultimately show ?thesis using assms(1) by fastforce
next
  case False
  let ?n = "length (a_variants a)"
  let ?x = "fst (Math_random r)"
  let ?i = "\<lfloor>?x * of_nat ?n\<rfloor>"
  let ?av = "a_variants a ! nat ?i"
  let ?p = "\<lparr>question_id = Some (q_id q), answer_id = Some (a_id a),
             response_text = av_variant_text ?av, response_html = av_variant_html ?av,
             score = variant_score lm v\<rparr>"
  from False have n: "0 < ?n" by simp
  have idx: "0 \<le> ?i \<and> nat ?i < ?n"
    using random_index_in_range [OF _ _ n, of ?x] valid_rng_draw [OF assms(1)] by blast
  have "variants_loop lm q a (v # vs) (bm, bs, r)
        = variants_loop lm q a vs (Some ?p, variant_score lm v, snd (Math_random r))"
    using False assms(2) idx by (simp add: variant_score_def Let_def split_beta)
  moreover have "hit lm q a (v # vs) ?p"
    using False idx by (auto simp: hit_def answers_with_def)
  ultimately show ?thesis using valid_rng_next [OF assms(1)] by fastforce
qed

lemma variants_loop_skip:
  assumes "\<not> bs < variant_score lm v"
  shows "variants_loop lm q a (v # vs) (bm, bs, r) = variants_loop lm q a vs (bm, bs, r)"
  using assms by (simp add: variant_score_def Let_def)

lemma variants_loop_spec:
  assumes "valid_rng r"
  shows "\<exists>bm' r'. variants_loop lm q a vs (bm, bs, r)
                    = Inr (bm', fold max (map (variant_score lm) vs) bs, r')
           \<and> valid_rng r'
           \<and> (bm' = bm \<and> fold max (map (variant_score lm) vs) bs = bs
              \<or> (\<exists>p. bm' = Some p \<and> score p = fold max (map (variant_score lm) vs) bs
                     \<and> bs < score p \<and> hit lm q a vs p))"
  using assms
proof (induction vs arbitrary: bm bs r)
  case Nil
  then show ?case by simp
next
  case (Cons v vs)
  let ?s = "variant_score lm v"
  let ?F = "\<lambda>b. fold max (map (variant_score lm) vs) b"
  show ?case
  proof (cases "bs < ?s")
    case False
    then have m: "max ?s bs = bs" by simp
    from Cons.IH [OF Cons.prems, of bm bs]
    obtain bm' r' where
      run: "variants_loop lm q a vs (bm, bs, r) = Inr (bm', ?F bs, r')" and
      v: "valid_rng r'" and
      d: "bm' = bm \<and> ?F bs = bs
          \<or> (\<exists>p. bm' = Some p \<and> score p = ?F bs \<and> bs < score p \<and> hit lm q a vs p)"
      by blast
    from d have "bm' = bm \<and> ?F bs = bs
          \<or> (\<exists>p. bm' = Some p \<and> score p = ?F bs \<and> bs < score p \<and> hit lm q a (v # vs) p)"
      using hit_Cons by blast
    with run v show ?thesis
      unfolding variants_loop_skip [OF False] by (simp add: m)
  next
    case True
    then have m: "max ?s bs = ?s" by simp
    from variants_loop_step [OF Cons.prems True, of q a vs bm]
    obtain p r1 where
      step: "variants_loop lm q a (v # vs) (bm, bs, r) = variants_loop lm q a vs (Some p, ?s, r1)" and
      v1: "valid_rng r1" and sp: "score p = ?s" and hp: "hit lm q a (v # vs) p"
      by blast
    from Cons.IH [OF v1, of "Some p" ?s]
    obtain bm' r' where
      run: "variants_loop lm q a vs (Some p, ?s, r1) = Inr (bm', ?F ?s, r')" and
      v: "valid_rng r'" and
      d: "bm' = Some p \<and> ?F ?s = ?s
          \<or> (\<exists>p'. bm' = Some p' \<and> score p' = ?F ?s \<and> ?s < score p' \<and> hit lm q a vs p')"
      by blast
    from d have "\<exists>p'. bm' = Some p' \<and> score p' = ?F ?s \<and> bs < score p' \<and> hit lm q a (v # vs) p'"
    proof
      assume "bm' = Some p \<and> ?F ?s = ?s"
      then show ?thesis using sp hp True by simp
    next
      assume "\<exists>p'. bm' = Some p' \<and> score p' = ?F ?s \<and> ?s < score p' \<and> hit lm q a vs p'"
      then obtain p' where "bm' = Some p'" "score p' = ?F ?s" "?s < score p'" "hit lm q a vs p'"
        by blast
      then show ?thesis using True hit_Cons by force
    qed
    with run v show ?thesis
      unfolding step by (simp add: m)
  qed
qed


lemma hit_resolves: "q_answer q = Some a \<Longrightarrow> hit lm q a (q_variants q) p \<Longrightarrow> resolves lm q p"
  by (simp add: hit_def resolves_def)

lemma questions_loop_spec:
  assumes "valid_rng r"
  shows "\<exists>bm' r'. questions_loop lm qs (bm, bs, r) = Inr (bm', fold max (pool_scores lm qs) bs, r')
           \<and> valid_rng r'
           \<and> (bm' = bm \<and> fold max (pool_scores lm qs) bs = bs
              \<or> (\<exists>p. bm' = Some p \<and> score p = fold max (pool_scores lm qs) bs
                     \<and> bs < score p \<and> (\<exists>q \<in> set qs. resolves lm q p)))"
  using assms
proof (induction qs arbitrary: bm bs r)
  case Nil
  then show ?case by (simp add: pool_scores_def)
next
  case (Cons q qs)
  let ?P = "\<lambda>qs. pool_scores lm qs"
  show ?case
  proof (cases "q_answer q")
    case None
    then have step: "questions_loop lm (q # qs) (bm, bs, r) = questions_loop lm qs (bm, bs, r)"
      by simp
    from None have pool: "?P (q # qs) = ?P qs" by (simp add: pool_scores_def)
    from Cons.IH [OF Cons.prems, of bm bs] show ?thesis
      unfolding step pool by auto
  next
    case (Some a)
    let ?o = "original_score lm q"
    let ?po = "\<lparr>question_id = Some (q_id q), answer_id = Some (a_id a),
                response_text = answer_text a, response_html = answer_html a, score = ?o\<rparr>"
    let ?bm0 = "if bs < ?o then Some ?po else bm"
    let ?b0 = "max ?o bs"
    let ?b1 = "fold max (map (variant_score lm) (q_variants q)) ?b0"
    have pool: "fold max (?P (q # qs)) bs = fold max (?P qs) ?b1"
      using Some by (simp add: pool_scores_def candidate_scores_def)
    have st0: "(if bs < ?o then (Some ?po, ?o, r) else (bm, bs, r)) = (?bm0, ?b0, r)"
      by (simp add: max_def)
    have d0: "?bm0 = bm \<and> ?b0 = bs
              \<or> (\<exists>p. ?bm0 = Some p \<and> score p = ?b0 \<and> bs < score p \<and> resolves lm q p)"
      using Some by (auto simp: resolves_def max_def)
    from variants_loop_spec [OF Cons.prems, of lm q a "q_variants q" ?bm0 ?b0]
    obtain bm1 r1 where
      run1: "variants_loop lm q a (q_variants q) (?bm0, ?b0, r) = Inr (bm1, ?b1, r1)" and
      v1: "valid_rng r1" and
      d1: "bm1 = ?bm0 \<and> ?b1 = ?b0
           \<or> (\<exists>p. bm1 = Some p \<and> score p = ?b1 \<and> ?b0 < score p \<and> hit lm q a (q_variants q) p)"
      by blast
    have d01: "bm1 = bm \<and> ?b1 = bs
              \<or> (\<exists>p. bm1 = Some p \<and> score p = ?b1 \<and> bs < score p \<and> resolves lm q p)"
    proof -
      from d1 show ?thesis
      proof
        assume "bm1 = ?bm0 \<and> ?b1 = ?b0"
        with d0 show ?thesis by auto
      next
        assume "\<exists>p. bm1 = Some p \<and> score p = ?b1 \<and> ?b0 < score p \<and> hit lm q a (q_variants q) p"
        then obtain p where p: "bm1 = Some p" "score p = ?b1" "?b0 < score p"
            "hit lm q a (q_variants q) p" by blast
        from p(3) have "bs < score p" by simp
        with p hit_resolves [OF Some p(4)] show ?thesis by blast
      qed
    qed
    have step: "questions_loop lm (q # qs) (bm, bs, r) = questions_loop lm qs (bm1, ?b1, r1)"
      using Some run1 by (simp add: Let_def original_score_def [symmetric] st0 del: max.absorb_iff1 max.absorb_iff2)
    from Cons.IH [OF v1, of bm1 ?b1]
    obtain bm' r' where
      run: "questions_loop lm qs (bm1, ?b1, r1) = Inr (bm', fold max (?P qs) ?b1, r')" and
      v: "valid_rng r'" and
      d: "bm' = bm1 \<and> fold max (?P qs) ?b1 = ?b1
          \<or> (\<exists>p. bm' = Some p \<and> score p = fold max (?P qs) ?b1 \<and> ?b1 < score p
                 \<and> (\<exists>q \<in> set qs. resolves lm q p))"
      by blast
    have b1: "bs \<le> ?b1"
      using fold_max_ge [of ?b0 "map (variant_score lm) (q_variants q)"] by simp
    have "bm' = bm \<and> fold max (?P qs) ?b1 = bs
          \<or> (\<exists>p. bm' = Some p \<and> score p = fold max (?P qs) ?b1 \<and> bs < score p
                 \<and> (\<exists>q' \<in> set (q # qs). resolves lm q' p))"
    proof -
      from d show ?thesis
      proof
        assume a: "bm' = bm1 \<and> fold max (?P qs) ?b1 = ?b1"
        from d01 show ?thesis
        proof
          assume "bm1 = bm \<and> ?b1 = bs"
          with a show ?thesis by simp
        next
          assume "\<exists>p. bm1 = Some p \<and> score p = ?b1 \<and> bs < score p \<and> resolves lm q p"
          with a show ?thesis by auto
        qed
      next
        assume "\<exists>p. bm' = Some p \<and> score p = fold max (?P qs) ?b1 \<and> ?b1 < score p
                 \<and> (\<exists>q \<in> set qs. resolves lm q p)"
        then obtain p where p: "bm' = Some p" "score p = fold max (?P qs) ?b1" "?b1 < score p"
          "\<exists>q \<in> set qs. resolves lm q p" by blast
        from p(3) b1 have "bs < score p" by linarith
        with p show ?thesis by auto
      qed
    qed
    with run v show ?thesis
      unfolding step pool by blast
  qed
qed


lemma best_score_fold: "best_score lm qs = fold max (pool_scores lm qs) 0"
  unfolding best_score_def using Max.set_eq_fold [of 0 "pool_scores lm qs"] by simp

lemma valid_rng_const: "valid_rng (\<lambda>_. 1 / 2)"
  by (simp add: valid_rng_def)

lemma matcher_result:
  assumes "valid_rng r" and "Question_findAll db agentId = Inr qs"
  shows "let lm = trim (toLowerCase m); p = findMatchingAnswer r db agentId (Str m) in
         if best_score lm qs > 3 / 10
         then score p = best_score lm qs \<and> (\<exists>q \<in> set qs. resolves lm q p)
         else p = no_information"
proof -
  let ?lm = "trim (toLowerCase m)"
  let ?B = "fold max (pool_scores ?lm qs) 0"
  from questions_loop_spec [OF assms(1), of ?lm qs None 0]
  obtain bm' r' where
    run: "questions_loop ?lm qs (None, 0, r) = Inr (bm', ?B, r')" and
    d: "bm' = None \<and> ?B = 0
        \<or> (\<exists>p. bm' = Some p \<and> score p = ?B \<and> 0 < score p \<and> (\<exists>q \<in> set qs. resolves ?lm q p))"
    by blast
  have res: "findMatchingAnswer r db agentId (Str m) =
        (case bm' of Some p \<Rightarrow> if ?B > 3 / 10 then p else no_information
                   | None \<Rightarrow> no_information)"
    using assms(2) run
    by (simp add: findMatchingAnswer_def findMatchingAnswer_try_def Let_def split: option.splits)
  from d show ?thesis
  proof
    assume "bm' = None \<and> ?B = 0"
    then show ?thesis by (simp add: res best_score_fold Let_def)
  next
    assume "\<exists>p. bm' = Some p \<and> score p = ?B \<and> 0 < score p \<and> (\<exists>q \<in> set qs. resolves ?lm q p)"
    then obtain p where "bm' = Some p" "score p = ?B" "\<exists>q \<in> set qs. resolves ?lm q p" by blast
    then show ?thesis by (simp add: res best_score_fold Let_def)
  qed
qed

text \<open>
  C3: with the store answering and draws from \<open>[0, 1)\<close>, if the best score over all
  candidates of the loaded questions is above 0.3, the matcher returns the resolution of a
  candidate with that score (ids of its question and answer, the canonical answer text and
  html for a question text, an approved answer variant, if any, for a variant text);
  otherwise it returns the fixed no-information payload, whose ids are null.
\<close>

theorem findMatchingAnswer_threshold:
  assumes "valid_rng r" and "Question_findAll db agentId = Inr qs"
  shows "let lm = trim (toLowerCase m); p = findMatchingAnswer r db agentId (Str m) in
         if best_score lm qs > 3 / 10
         then score p = best_score lm qs \<and> (\<exists>q \<in> set qs. resolves lm q p)
         else p = no_information
              \<and> question_id no_information = None \<and> answer_id no_information = None"
  using matcher_result [OF assms, of m] by (simp add: Let_def no_information_def)

theorem findMatchingAnswer_threshold_witness:
  "response_text (findMatchingAnswer (\<lambda>_. 1 / 2) (Connected [return_policy_question]) ''agent-x''
      (Str ''what's the return policy'')) = ''You can return items within 30 days.''"
proof -
  let ?lm = "trim (toLowerCase ''what's the return policy'')"
  have fa: "Question_findAll (Connected [return_policy_question]) ''agent-x''
            = Inr [return_policy_question]"
    by code_simp
  have b: "best_score ?lm [return_policy_question] = 3 / 4"
    unfolding best_score_fold by code_simp
  have o: "original_score ?lm return_policy_question = 3 / 4" by code_simp
  have v: "\<forall>v \<in> set (q_variants return_policy_question). variant_score ?lm v \<noteq> 3 / 4"
    by code_simp
  define p where "p = findMatchingAnswer (\<lambda>_. 1 / 2) (Connected [return_policy_question])
      ''agent-x'' (Str ''what's the return policy'')"
  from findMatchingAnswer_threshold [OF valid_rng_const fa, of "''what's the return policy''"]
  have "score p = 3 / 4 \<and> resolves ?lm return_policy_question p"
    unfolding b Let_def p_def by simp
  then have "response_text p = answer_text return_policy_answer"
    using o v by (auto simp: resolves_def return_policy_question_def)
  then show ?thesis
    unfolding p_def by (simp add: return_policy_answer_def)
qed

lemma hit_twice:
  assumes "hit lm q a vs p1" "hit lm q a vs p2" "score p1 = score p2" "q_answer q = Some a"
  shows "p1 = p2 \<or> differ_by_answer_variant q p1 p2"
proof (cases "a_variants a = []")
  case True
  with assms have "p1 = p2"
    by (intro payload.equality) (simp_all add: hit_def answers_with_def)
  then show ?thesis ..
next
  case False
  with assms have "differ_by_answer_variant q p1 p2"
    by (simp add: hit_def answers_with_def differ_by_answer_variant_def)
  then show ?thesis ..
qed

lemma variants_loop_rel:
  assumes "valid_rng r1" "valid_rng r2" "q_answer q = Some a"
  shows "\<exists>b1' b2' bs' r1' r2'.
           variants_loop lm q a vs (b1, bs, r1) = Inr (b1', bs', r1') \<and>
           variants_loop lm q a vs (b2, bs, r2) = Inr (b2', bs', r2') \<and>
           valid_rng r1' \<and> valid_rng r2' \<and>
           (b1' = b1 \<and> b2' = b2 \<and> bs' = bs \<or> related [q] b1' b2')"
proof -
  let ?F = "fold max (map (variant_score lm) vs) bs"
  from variants_loop_spec [OF assms(1), of lm q a vs b1 bs]
  obtain b1' r1' where
    run1: "variants_loop lm q a vs (b1, bs, r1) = Inr (b1', ?F, r1')" and v1: "valid_rng r1'" and
    d1: "b1' = b1 \<and> ?F = bs
         \<or> (\<exists>p. b1' = Some p \<and> score p = ?F \<and> bs < score p \<and> hit lm q a vs p)" by blast
  from variants_loop_spec [OF assms(2), of lm q a vs b2 bs]
  obtain b2' r2' where
    run2: "variants_loop lm q a vs (b2, bs, r2) = Inr (b2', ?F, r2')" and v2: "valid_rng r2'" and
    d2: "b2' = b2 \<and> ?F = bs
         \<or> (\<exists>p. b2' = Some p \<and> score p = ?F \<and> bs < score p \<and> hit lm q a vs p)" by blast
  have "b1' = b1 \<and> b2' = b2 \<and> ?F = bs \<or> related [q] b1' b2'"
  proof (cases "?F = bs")
    case True
    with d1 d2 show ?thesis by auto
  next
    case False
    with d1 obtain p1 where p1: "b1' = Some p1" "score p1 = ?F" "hit lm q a vs p1" by auto
    from False d2 obtain p2 where p2: "b2' = Some p2" "score p2 = ?F" "hit lm q a vs p2" by auto
    from hit_twice [OF p1(3) p2(3) _ assms(3)] p1(2) p2(2)
    have "p1 = p2 \<or> differ_by_answer_variant q p1 p2" by simp
    with p1(1) p2(1) show ?thesis by (auto simp: related_def)
  qed
  with run1 run2 v1 v2 show ?thesis by blast
qed

lemma related_mono: "related qs b1 b2 \<Longrightarrow> set qs \<subseteq> set qs' \<Longrightarrow> related qs' b1 b2"
  by (auto simp: related_def)

lemma questions_loop_rel:
  assumes "valid_rng r1" "valid_rng r2"
  shows "\<exists>b1' b2' bs' r1' r2'.
           questions_loop lm qs (b1, bs, r1) = Inr (b1', bs', r1') \<and>
           questions_loop lm qs (b2, bs, r2) = Inr (b2', bs', r2') \<and>
           (b1' = b1 \<and> b2' = b2 \<and> bs' = bs \<or> related qs b1' b2')"
  using assms
proof (induction qs arbitrary: b1 b2 bs r1 r2)
  case Nil
  then show ?case by simp
next
  case (Cons q qs)
  show ?case
  proof (cases "q_answer q")
    case None
    from Cons.IH [OF Cons.prems, of b1 bs b2]
    obtain b1' b2' bs' r1' r2' where
      "questions_loop lm qs (b1, bs, r1) = Inr (b1', bs', r1')"
      "questions_loop lm qs (b2, bs, r2) = Inr (b2', bs', r2')"
      "b1' = b1 \<and> b2' = b2 \<and> bs' = bs \<or> related qs b1' b2'" by blast
    moreover from this(3) have "b1' = b1 \<and> b2' = b2 \<and> bs' = bs \<or> related (q # qs) b1' b2'"
      using related_mono [of qs b1' b2' "q # qs"] by auto
    ultimately show ?thesis using None by simp
  next
    case (Some a)
    let ?o = "original_score lm q"
    let ?po = "\<lparr>question_id = Some (q_id q), answer_id = Some (a_id a),
                response_text = answer_text a, response_html = answer_html a, score = ?o\<rparr>"
    let ?c1 = "if bs < ?o then Some ?po else b1"
    let ?c2 = "if bs < ?o then Some ?po else b2"
    let ?b0 = "max ?o bs"
    have st1: "(if bs < ?o then (Some ?po, ?o, r1) else (b1, bs, r1)) = (?c1, ?b0, r1)"
      by (simp add: max_def)
    have st2: "(if bs < ?o then (Some ?po, ?o, r2) else (b2, bs, r2)) = (?c2, ?b0, r2)"
      by (simp add: max_def)
    have d0: "?c1 = b1 \<and> ?c2 = b2 \<and> ?b0 = bs \<or> related (q # qs) ?c1 ?c2"
      by (auto simp: related_def max_def)
    from variants_loop_rel [OF Cons.prems Some, of lm "q_variants q" ?c1 ?b0 ?c2]
    obtain d1 d2 bs1 s1 s2 where
      run1: "variants_loop lm q a (q_variants q) (?c1, ?b0, r1) = Inr (d1, bs1, s1)" and
      run2: "variants_loop lm q a (q_variants q) (?c2, ?b0, r2) = Inr (d2, bs1, s2)" and
      v: "valid_rng s1" "valid_rng s2" and
      dd: "d1 = ?c1 \<and> d2 = ?c2 \<and> bs1 = ?b0 \<or> related [q] d1 d2" by blast
    have d01: "d1 = b1 \<and> d2 = b2 \<and> bs1 = bs \<or> related (q # qs) d1 d2"
      using dd d0 related_mono [of "[q]" d1 d2 "q # qs"] by auto
    have step1: "questions_loop lm (q # qs) (b1, bs, r1) = questions_loop lm qs (d1, bs1, s1)"
      using Some run1
      by (simp add: Let_def original_score_def [symmetric] st1 del: max.absorb_iff1 max.absorb_iff2)
    have step2: "questions_loop lm (q # qs) (b2, bs, r2) = questions_loop lm qs (d2, bs1, s2)"
      using Some run2
      by (simp add: Let_def original_score_def [symmetric] st2 del: max.absorb_iff1 max.absorb_iff2)
    from Cons.IH [OF v, of d1 bs1 d2]
    obtain b1' b2' bs' r1' r2' where
      f1: "questions_loop lm qs (d1, bs1, s1) = Inr (b1', bs', r1')" and
      f2: "questions_loop lm qs (d2, bs1, s2) = Inr (b2', bs', r2')" and
      fd: "b1' = d1 \<and> b2' = d2 \<and> bs' = bs1 \<or> related qs b1' b2'" by blast
    have "b1' = b1 \<and> b2' = b2 \<and> bs' = bs \<or> related (q # qs) b1' b2'"
      using fd d01 related_mono [of qs b1' b2' "q # qs"] by auto
    with f1 f2 show ?thesis unfolding step1 step2 by blast
  qed
qed

lemma matcher_failure:
  assumes "(\<forall>m. userMessage \<noteq> Str m) \<or> (\<exists>e. Question_findAll db agentId = Inl e)"
  shows "findMatchingAnswer r db agentId userMessage = technical_difficulties"
  using assms
  by (cases userMessage)
     (auto simp: findMatchingAnswer_def findMatchingAnswer_try_def Let_def)

text \<open>
  C7: the matcher returns a payload on every input. Whenever the body of its \<open>try\<close> block
  throws, in particular when the store fails the query or the message is not a string,
  the result is the fixed technical-difficulties payload, whose ids are null.
\<close>

theorem findMatchingAnswer_never_throws:
  "(findMatchingAnswer_try r db agentId userMessage = Inl e
      \<longrightarrow> findMatchingAnswer r db agentId userMessage = technical_difficulties)
   \<and> (Question_findAll db agentId = Inl e
      \<longrightarrow> findMatchingAnswer r db agentId userMessage = technical_difficulties)
   \<and> ((\<forall>m. userMessage \<noteq> Str m)
      \<longrightarrow> findMatchingAnswer r db agentId userMessage = technical_difficulties)
   \<and> question_id technical_difficulties = None \<and> answer_id technical_difficulties = None"
  using matcher_failure [of userMessage db agentId r]
  by (auto simp: findMatchingAnswer_def technical_difficulties_def)

theorem findMatchingAnswer_never_throws_witness:
  "findMatchingAnswer (\<lambda>_. 1 / 2) Unavailable ''agent-x'' (Str ''what is your return policy'')
     = technical_difficulties
   \<and> findMatchingAnswer (\<lambda>_. 1 / 2) (Connected [return_policy_question]) ''agent-x'' Undefined
     = technical_difficulties"
proof -
  have "Question_findAll Unavailable ''agent-x'' = Inl StorageError" by simp
  moreover have "\<forall>m. Undefined \<noteq> Str m" by simp
  ultimately show ?thesis
    using findMatchingAnswer_never_throws
            [of "\<lambda>_. 1 / 2" Unavailable "''agent-x''" "Str ''what is your return policy''"
                StorageError]
          findMatchingAnswer_never_throws
            [of "\<lambda>_. 1 / 2" "Connected [return_policy_question]" "''agent-x''" Undefined]
    by blast
qed

text \<open>
  C9: two runs on the same store, agent and message that differ only in the random draws
  return the same question id, answer id and score; the two payloads are equal unless
  both carry approved variants of the answer of the one matched question.
\<close>

theorem random_choice_keeps_match:
  assumes "valid_rng r1" and "valid_rng r2"
  shows "let p1 = findMatchingAnswer r1 db agentId userMessage;
             p2 = findMatchingAnswer r2 db agentId userMessage in
         question_id p1 = question_id p2 \<and> answer_id p1 = answer_id p2 \<and> score p1 = score p2 \<and>
         (p1 = p2 \<or> (\<exists>qs. Question_findAll db agentId = Inr qs
                          \<and> (\<exists>q \<in> set qs. differ_by_answer_variant q p1 p2)))"
proof (cases "\<exists>m qs. userMessage = Str m \<and> Question_findAll db agentId = Inr qs")
  case False
  then have "(\<forall>m. userMessage \<noteq> Str m) \<or> (\<exists>e. Question_findAll db agentId = Inl e)"
    by (cases "Question_findAll db agentId") auto
  then show ?thesis
    by (simp add: matcher_failure Let_def)
next
  case True
  then obtain m qs where m: "userMessage = Str m" and qs: "Question_findAll db agentId = Inr qs"
    by blast
  let ?lm = "trim (toLowerCase m)"
  from questions_loop_rel [OF assms, of ?lm qs None 0 None]
  obtain b1 b2 bs r1' r2' where
    run1: "questions_loop ?lm qs (None, 0, r1) = Inr (b1, bs, r1')" and
    run2: "questions_loop ?lm qs (None, 0, r2) = Inr (b2, bs, r2')" and
    d: "b1 = None \<and> b2 = None \<and> bs = 0 \<or> related qs b1 b2" by blast
  have res1: "findMatchingAnswer r1 db agentId userMessage =
        (case b1 of Some p \<Rightarrow> if bs > 3 / 10 then p else no_information | None \<Rightarrow> no_information)"
    using m qs run1
    by (simp add: findMatchingAnswer_def findMatchingAnswer_try_def Let_def split: option.splits)
  have res2: "findMatchingAnswer r2 db agentId userMessage =
        (case b2 of Some p \<Rightarrow> if bs > 3 / 10 then p else no_information | None \<Rightarrow> no_information)"
    using m qs run2
    by (simp add: findMatchingAnswer_def findMatchingAnswer_try_def Let_def split: option.splits)
  from d have "related qs b1 b2" by (auto simp: related_def)
  then show ?thesis
    unfolding res1 res2 Let_def using qs
    by (auto simp: related_def differ_by_answer_variant_def split: option.splits)
qed


theorem random_choice_keeps_match_witness:
  "(let p1 = findMatchingAnswer (\<lambda>_. 0) (Connected [return_policy_question]) ''agent-x''
               (Str ''items sent back'');
        p2 = findMatchingAnswer (\<lambda>_. 1 / 2) (Connected [return_policy_question]) ''agent-x''
               (Str ''items sent back'')
    in question_id p1 = question_id p2 \<and> answer_id p1 = answer_id p2 \<and> score p1 = score p2
       \<and> response_text p1 = ''Items can be returned within 30 days.''
       \<and> response_text p2 = ''Returns are accepted for 30 days.'')"
proof -
  have v0: "valid_rng (\<lambda>_. 0)" by (simp add: valid_rng_def)
  have t1: "response_text (findMatchingAnswer (\<lambda>_. 0) (Connected [return_policy_question])
              ''agent-x'' (Str ''items sent back'')) = ''Items can be returned within 30 days.''"
    by code_simp
  have t2: "response_text (findMatchingAnswer (\<lambda>_. 1 / 2) (Connected [return_policy_question])
              ''agent-x'' (Str ''items sent back'')) = ''Returns are accepted for 30 days.''"
    by code_simp
  show ?thesis
    using random_choice_keeps_match
            [OF v0 valid_rng_const, of "Connected [return_policy_question]" "''agent-x''"
                "Str ''items sent back''"] t1 t2
    by (simp add: Let_def)
qed

lemma matchable_not_draft: "matchable agentId q \<Longrightarrow> \<not> is_draft q"
  by (auto simp: matchable_def is_draft_def split: option.splits)

lemma filter_matchable_not_draft:
  "filter (\<lambda>q. \<not> is_draft q \<and> matchable agentId q) rows = filter (matchable agentId) rows"
  by (induction rows) (auto dest: matchable_not_draft)

lemma resolves_loaded:
  assumes "resolves lm (load_includes q) p"
  shows "question_id p = Some (q_id q) \<and> (\<exists>a. q_answer q = Some a \<and> answer_id p = Some (a_id a))"
  using assms
  by (cases "q_answer q") (auto simp: resolves_def load_includes_def)

lemma matched_question_is_final:
  assumes v: "valid_rng r"
    and i: "question_id (findMatchingAnswer r (Connected rows) agentId (Str m)) = Some i"
  shows "\<exists>q \<in> set rows. q_id q = i \<and> agent_id q = agentId \<and> q_status q = Final \<and>
              (\<exists>a. q_answer q = Some a \<and> a_status a = Final \<and>
                   answer_id (findMatchingAnswer r (Connected rows) agentId (Str m)) = Some (a_id a))"
proof -
  let ?p = "findMatchingAnswer r (Connected rows) agentId (Str m)"
  let ?qs = "map load_includes (filter (matchable agentId) rows)"
  let ?lm = "trim (toLowerCase m)"
  have fa: "Question_findAll (Connected rows) agentId = Inr ?qs" by simp
  from i have ne: "?p \<noteq> no_information" by (auto simp: no_information_def)
  from matcher_result [OF v fa, of m] ne
  have "\<exists>q \<in> set ?qs. resolves ?lm q ?p"
    by (simp add: Let_def split: if_splits)
  then obtain q where q: "q \<in> set rows" "matchable agentId q" "resolves ?lm (load_includes q) ?p"
    by auto
  from resolves_loaded [OF q(3)] i q(2)
  have "q_id q = i \<and> agent_id q = agentId \<and> q_status q = Final \<and>
        (\<exists>a. q_answer q = Some a \<and> a_status a = Final \<and> answer_id ?p = Some (a_id a))"
    by (auto simp: matchable_def)
  with q(1) show ?thesis by blast
qed

text \<open>
  C4: draft material never influences the matcher. Removing every draft question (and
  every question with a draft answer) from the store leaves the result unchanged; a store
  of draft material only yields the no-information payload whatever the message; and a
  returned question id is that of a stored Final question of the agent whose answer is
  Final.
\<close>

theorem draft_never_matches:
  "findMatchingAnswer r (Connected rows) agentId userMessage
     = findMatchingAnswer r (Connected (filter (\<lambda>q. \<not> is_draft q) rows)) agentId userMessage
   \<and> ((\<forall>q \<in> set rows. is_draft q)
        \<longrightarrow> findMatchingAnswer r (Connected rows) agentId (Str m) = no_information)
   \<and> (valid_rng r
        \<longrightarrow> question_id (findMatchingAnswer r (Connected rows) agentId (Str m)) = Some i
        \<longrightarrow> (\<exists>q \<in> set rows. q_id q = i \<and> agent_id q = agentId \<and> q_status q = Final \<and>
              (\<exists>a. q_answer q = Some a \<and> a_status a = Final \<and>
                   answer_id (findMatchingAnswer r (Connected rows) agentId (Str m)) = Some (a_id a))))"
proof (intro conjI impI)
  show "findMatchingAnswer r (Connected rows) agentId userMessage
     = findMatchingAnswer r (Connected (filter (\<lambda>q. \<not> is_draft q) rows)) agentId userMessage"
    by (cases userMessage)
       (simp_all add: findMatchingAnswer_def findMatchingAnswer_try_def filter_matchable_not_draft)
next
  assume "\<forall>q \<in> set rows. is_draft q"
  then have "filter (matchable agentId) rows = []"
    by (auto simp: filter_empty_conv dest: matchable_not_draft)
  then show "findMatchingAnswer r (Connected rows) agentId (Str m) = no_information"
    by (simp add: findMatchingAnswer_def findMatchingAnswer_try_def)
next
  assume "valid_rng r"
    and "question_id (findMatchingAnswer r (Connected rows) agentId (Str m)) = Some i"
  then show "\<exists>q \<in> set rows. q_id q = i \<and> agent_id q = agentId \<and> q_status q = Final \<and>
              (\<exists>a. q_answer q = Some a \<and> a_status a = Final \<and>
                   answer_id (findMatchingAnswer r (Connected rows) agentId (Str m)) = Some (a_id a))"
    by (rule matched_question_is_final)
qed

theorem draft_never_matches_witness:
  "calculateSimilarity (trim (toLowerCase ''What is your return policy?''))
       (toLowerCase (question_text (return_policy_question\<lparr>q_status := Draft\<rparr>))) = 1
   \<and> findMatchingAnswer (\<lambda>_. 1 / 2) (Connected [return_policy_question\<lparr>q_status := Draft\<rparr>])
       ''agent-x'' (Str ''What is your return policy?'') = no_information
   \<and> (\<exists>q \<in> set [return_policy_question]. q_id q = ''q-1'' \<and> q_status q = Final)"
proof -
  have s: "calculateSimilarity (trim (toLowerCase ''What is your return policy?''))
       (toLowerCase (question_text (return_policy_question\<lparr>q_status := Draft\<rparr>))) = 1"
    by code_simp
  have d: "\<forall>q \<in> set [return_policy_question\<lparr>q_status := Draft\<rparr>]. is_draft q"
    by (simp add: is_draft_def)
  have i: "question_id (findMatchingAnswer (\<lambda>_. 1 / 2) (Connected [return_policy_question])
             ''agent-x'' (Str ''What is your return policy?'')) = Some ''q-1''"
    by code_simp
  from draft_never_matches
         [of "\<lambda>_. 1 / 2" "[return_policy_question\<lparr>q_status := Draft\<rparr>]" "''agent-x''"
             Undefined "''What is your return policy?''"] d
  have f: "findMatchingAnswer (\<lambda>_. 1 / 2) (Connected [return_policy_question\<lparr>q_status := Draft\<rparr>])
       ''agent-x'' (Str ''What is your return policy?'') = no_information"
    by blast
  from draft_never_matches
         [of "\<lambda>_. 1 / 2" "[return_policy_question]" "''agent-x''"
             Undefined "''What is your return policy?''" "''q-1''"] valid_rng_const i
  have "\<exists>q \<in> set [return_policy_question]. q_id q = ''q-1'' \<and> q_status q = Final"
    by blast
  with s f show ?thesis by blast
qed

section \<open>Properties of the generator\<close>

lemma html_ok_Str [simp]: "html_ok (Str h)"
  by (simp add: html_ok_def)

lemma html_replace_ok:
  assumes "html_ok htmlContent"
  shows "html_replace htmlContent t result =
           Inr (Str (case htmlContent of
                       Str h \<Rightarrow> if h = [] then result else str_replace h t result
                     | _ \<Rightarrow> result))"
  using assms by (cases htmlContent) (auto simp: html_replace_def html_ok_def)

lemma html_replace_throws:
  assumes "\<not> html_ok htmlContent"
  shows "html_replace htmlContent t result = Inl TypeError"
  using assms by (cases htmlContent) (auto simp: html_replace_def html_ok_def)

lemma rule_return_ok:
  assumes "html_ok htmlContent"
  shows "\<exists>h. rule_return htmlContent t result c r
               = Inr (\<lparr>r_text = result, r_html = Str h, r_confidence = Some c\<rparr>, r)"
  by (simp add: rule_return_def html_replace_ok [OF assms])

lemma rule_return_throws:
  assumes "\<not> html_ok htmlContent"
  shows "rule_return htmlContent t result c r = Inl TypeError"
  by (simp add: rule_return_def html_replace_throws [OF assms])

lemma synonymReplacement_ok: "rule_ok synonymReplacement"
  unfolding rule_ok_def synonymReplacement_def
  by (auto simp: split_beta Let_def rule_return_def html_replace_ok)

lemma sentenceRestructuring_ok: "rule_ok sentenceRestructuring"
  unfolding rule_ok_def sentenceRestructuring_def
  by (auto simp: split_beta Let_def rule_return_def html_replace_ok)

lemma formalInformalSwitch_ok: "rule_ok formalInformalSwitch"
  unfolding rule_ok_def formalInformalSwitch_def
  by (auto simp: split_beta Let_def rule_return_def html_replace_ok)

lemma activePassiveSwitch_ok: "rule_ok activePassiveSwitch"
  unfolding rule_ok_def activePassiveSwitch_def
  by (auto simp: split_beta Let_def rule_return_def html_replace_ok)

lemma questionStyleVariation_ok: "rule_ok questionStyleVariation"
  unfolding rule_ok_def questionStyleVariation_def
  by (auto simp: split_beta Let_def rule_return_def html_replace_ok)

lemma expandContract_ok: "rule_ok expandContract"
  unfolding rule_ok_def expandContract_def
  by (auto simp: split_beta Let_def rule_return_def html_replace_ok)

lemma changeOrder_ok: "rule_ok changeOrder"
  unfolding rule_ok_def changeOrder_def
  by (auto simp: split_beta Let_def rule_return_def html_replace_ok)

lemma shiftEmphasis_ok: "rule_ok shiftEmphasis"
  unfolding rule_ok_def shiftEmphasis_def Let_def split_beta
  by (auto simp: html_ok_def split: jsval.splits)

lemma changePerspective_ok: "rule_ok changePerspective"
  unfolding rule_ok_def changePerspective_def
  by (auto simp: split_beta Let_def rule_return_def html_replace_ok)

lemma contextualVariation_ok: "rule_ok contextualVariation"
  unfolding rule_ok_def contextualVariation_def
  by (auto simp: split_beta Let_def rule_return_def html_replace_ok)

lemma applyParaphraseTechnique_ok:
  assumes "html_ok htmlContent"
  shows "\<exists>res r'. applyParaphraseTechnique (Str t) technique type htmlContent r = Inr (res, r')
            \<and> html_ok (r_html res)"
  using assms synonymReplacement_ok sentenceRestructuring_ok formalInformalSwitch_ok
    activePassiveSwitch_ok questionStyleVariation_ok expandContract_ok changeOrder_ok
    shiftEmphasis_ok changePerspective_ok contextualVariation_ok
  unfolding rule_ok_def applyParaphraseTechnique_def stripHtml_def
  by simp

lemma applyParaphraseTechnique_not_string:
  assumes "\<forall>t. originalText \<noteq> Str t"
  shows "applyParaphraseTechnique originalText technique type htmlContent r = Inl TypeError"
  using assms by (cases originalText) (simp_all add: applyParaphraseTechnique_def stripHtml_def)

lemma synonymReplacement_throws:
  assumes "\<not> html_ok htmlContent"
  shows "applyParaphraseTechnique (Str t) ''synonymReplacement'' type htmlContent r = Inl TypeError"
  by (simp add: applyParaphraseTechnique_def stripHtml_def synonymReplacement_def split_beta
        rule_return_throws [OF assms])

lemma techniques_forEach_throw:
  assumes "techniques_forEach originalText type htmlContent ts1 index variants r = Inr (acc, r1)"
    and "applyParaphraseTechnique originalText t type htmlContent r1 = Inl e"
  shows "techniques_forEach originalText type htmlContent (ts1 @ t # ts2) index variants r = Inl e"
  using assms
proof (induction ts1 arbitrary: index variants r)
  case Nil
  then show ?case by simp
next
  case (Cons a ts1)
  then show ?case
    by (auto split: sum.splits)
qed

lemma techniques_forEach_ok:
  assumes "html_ok htmlContent"
  shows "\<exists>new r'. techniques_forEach (Str t) type htmlContent ts index variants r
                     = Inr (variants @ new, r')
           \<and> length new = length ts
           \<and> (\<forall>k < length ts.
                 v_id (new ! k) = Num (int (index + k + 1)) \<and> v_technique (new ! k) = ts ! k \<and>
                 (\<exists>rk res rk'. applyParaphraseTechnique (Str t) (ts ! k) type htmlContent rk
                                  = Inr (res, rk')
                               \<and> v_text (new ! k) = Str (r_text res)))"
proof (induction ts arbitrary: index variants r)
  case Nil
  then show ?case by simp
next
  case (Cons a ts)
  from applyParaphraseTechnique_ok [OF assms, of t a type r]
  obtain res r1 where app: "applyParaphraseTechnique (Str t) a type htmlContent r = Inr (res, r1)"
    by blast
  let ?e = "\<lparr>v_id = Num (int (index + 1)), v_text = Str (r_text res),
             v_html = or_else (r_html res) (Str (r_text res)), v_technique = a,
             v_confidence = (case r_confidence res of Some c \<Rightarrow> c | None \<Rightarrow> 8 / 10)\<rparr>"
  from Cons.IH [of "index + 1" "variants @ [?e]" r1]
  obtain new r' where
    run: "techniques_forEach (Str t) type htmlContent ts (index + 1) (variants @ [?e]) r1
            = Inr ((variants @ [?e]) @ new, r')" and
    len: "length new = length ts" and
    ent: "\<forall>k < length ts.
            v_id (new ! k) = Num (int (index + 1 + k + 1)) \<and> v_technique (new ! k) = ts ! k \<and>
            (\<exists>rk res rk'. applyParaphraseTechnique (Str t) (ts ! k) type htmlContent rk
                             = Inr (res, rk')
                          \<and> v_text (new ! k) = Str (r_text res))"
    by blast
  have step: "techniques_forEach (Str t) type htmlContent (a # ts) index variants r
              = Inr (variants @ (?e # new), r')"
    using app run by (simp add: is_new_variant_def)
  have "\<forall>k < length (a # ts).
          v_id ((?e # new) ! k) = Num (int (index + k + 1)) \<and>
          v_technique ((?e # new) ! k) = (a # ts) ! k \<and>
          (\<exists>rk res rk'. applyParaphraseTechnique (Str t) ((a # ts) ! k) type htmlContent rk
                           = Inr (res, rk')
                        \<and> v_text ((?e # new) ! k) = Str (r_text res))"
  proof (intro allI impI)
    fix k assume k: "k < length (a # ts)"
    show "v_id ((?e # new) ! k) = Num (int (index + k + 1)) \<and>
          v_technique ((?e # new) ! k) = (a # ts) ! k \<and>
          (\<exists>rk res rk'. applyParaphraseTechnique (Str t) ((a # ts) ! k) type htmlContent rk
                           = Inr (res, rk')
                        \<and> v_text ((?e # new) ! k) = Str (r_text res))"
    proof (cases k)
      case 0
      then show ?thesis using app by auto
    next
      case (Suc j)
      with k have "j < length ts" by simp
      with ent Suc show ?thesis by simp
    qed
  qed
  with step len show ?case by (intro exI [of _ "?e # new"] exI [of _ r']) simp
qed

lemma combination_forEach_ok:
  assumes "html_ok html"
  shows "\<exists>t' html' r'. combination_forEach ts type (Str t) html r = Inr ((Str t', html'), r')
           \<and> html_ok html'"
  using assms
proof (induction ts arbitrary: t html r)
  case Nil
  then show ?case by simp
next
  case (Cons a ts)
  from applyParaphraseTechnique_ok [OF Cons.prems, of t a type r]
  obtain res r1 where "applyParaphraseTechnique (Str t) a type html r = Inr (res, r1)"
    "html_ok (r_html res)" by blast
  with Cons.IH [of "r_html res" "r_text res" r1] show ?case by simp
qed

lemma combinations_forEach_ok:
  assumes "html_ok htmlContent"
  shows "\<exists>new ks r'. combinations_forEach (Str t) type htmlContent cs index variants r
                        = Inr (variants @ new, r')
           \<and> map v_id new = map creative_id ks
           \<and> sorted_wrt (<) ks \<and> (\<forall>k \<in> set ks. index < k \<and> k \<le> index + length cs)
           \<and> (\<forall>v \<in> set new. v_text v \<noteq> Str t)"
proof (induction cs arbitrary: index variants r)
  case Nil
  then show ?case by simp
next
  case (Cons c cs)
  from combination_forEach_ok [OF assms, of c type t r]
  obtain t' html' r1 where
    comb: "combination_forEach c type (Str t) htmlContent r = Inr ((Str t', html'), r1)"
    by blast
  let ?e = "\<lparr>v_id = Str (''creative_'' @ number_to_string (index + 1)), v_text = Str t',
             v_html = or_else html' (Str t'), v_technique = ''combined_'' @ join ''_'' c,
             v_confidence = 7 / 10\<rparr>"
  let ?vs = "if Str t' \<noteq> Str t then variants @ [?e] else variants"
  from Cons.IH [of "index + 1" ?vs r1]
  obtain new ks r' where
    run: "combinations_forEach (Str t) type htmlContent cs (index + 1) ?vs r1
            = Inr (?vs @ new, r')" and
    ids: "map v_id new = map creative_id ks" and
    srt: "sorted_wrt (<) ks" and
    rng: "\<forall>k \<in> set ks. index + 1 < k \<and> k \<le> index + 1 + length cs" and
    tx: "\<forall>v \<in> set new. v_text v \<noteq> Str t"
    by blast
  have step: "combinations_forEach (Str t) type htmlContent (c # cs) index variants r
              = Inr (?vs @ new, r')"
    using comb run by simp
  show ?case
  proof (cases "Str t' \<noteq> Str t")
    case True
    have "map v_id (?e # new) = map creative_id ((index + 1) # ks)"
      using ids by (simp add: creative_id_def)
    moreover have "sorted_wrt (<) ((index + 1) # ks)" using srt rng by auto
    moreover have "\<forall>k \<in> set ((index + 1) # ks). index < k \<and> k \<le> index + length (c # cs)"
      using rng by auto
    moreover have "\<forall>v \<in> set (?e # new). v_text v \<noteq> Str t" using tx True by simp
    moreover have "combinations_forEach (Str t) type htmlContent (c # cs) index variants r
              = Inr (variants @ (?e # new), r')" using step True by simp
    ultimately show ?thesis by blast
  next
    case False
    have "\<forall>k \<in> set ks. index < k \<and> k \<le> index + length (c # cs)"
      using rng by auto
    moreover have "combinations_forEach (Str t) type htmlContent (c # cs) index variants r
              = Inr (variants @ new, r')" using step False by simp
    ultimately show ?thesis using ids srt tx by blast
  qed
qed

lemma generateVariants_ok:
  assumes "html_ok (with_default htmlContent Null)"
  shows "\<exists>new creative ks.
           generateVariants r (Str t) type htmlContent = take 12 (new @ creative)
           \<and> length new = 10
           \<and> (\<forall>k < 10.
                 v_id (new ! k) = Num (int (k + 1)) \<and> v_technique (new ! k) = techniques ! k \<and>
                 (\<exists>rk res rk'. applyParaphraseTechnique (Str t) (techniques ! k)
                                  (with_default type (Str ''question''))
                                  (with_default htmlContent Null) rk = Inr (res, rk')
                               \<and> v_text (new ! k) = Str (r_text res)))
           \<and> map v_id creative = map creative_id ks
           \<and> sorted_wrt (<) ks \<and> (\<forall>k \<in> set ks. 0 < k \<and> k \<le> 4)
           \<and> (\<forall>v \<in> set creative. v_text v \<noteq> Str t)"
proof -
  let ?ty = "with_default type (Str ''question'')"
  let ?h = "with_default htmlContent Null"
  have l: "length techniques = 10" by (simp add: techniques_def)
  from techniques_forEach_ok [OF assms, of t ?ty techniques 0 "[]" r]
  obtain new r1 where
    run1: "techniques_forEach (Str t) ?ty ?h techniques 0 [] r = Inr (new, r1)" and
    len: "length new = 10" and
    ent: "\<forall>k < 10.
            v_id (new ! k) = Num (int (k + 1)) \<and> v_technique (new ! k) = techniques ! k \<and>
            (\<exists>rk res rk'. applyParaphraseTechnique (Str t) (techniques ! k) ?ty ?h rk = Inr (res, rk')
                          \<and> v_text (new ! k) = Str (r_text res))"
    unfolding l by auto
  have lc: "length combinations = 4" by (simp add: combinations_def)
  from combinations_forEach_ok [OF assms, of t ?ty combinations 0 "[]" r1]
  obtain creative ks r2 where
    run2: "generateCreativeVariants (Str t) ?ty ?h r1 = Inr (creative, r2)" and
    ids: "map v_id creative = map creative_id ks" and
    srt: "sorted_wrt (<) ks" and
    bnd: "\<forall>k \<in> set ks. 0 < k \<and> k \<le> 4" and
    tx: "\<forall>v \<in> set creative. v_text v \<noteq> Str t"
    unfolding generateCreativeVariants_def [symmetric] lc by auto
  have "generateVariants r (Str t) type htmlContent = take 12 (new @ creative)"
    using run1 run2 by (simp add: generateVariants_def generateVariants_try_def Let_def)
  with len ent ids srt bnd tx show ?thesis by blast
qed

lemma generateVariants_throws:
  assumes "(\<forall>t. originalText \<noteq> Str t) \<or> \<not> html_ok (with_default htmlContent Null)"
  shows "generateVariants_try r originalText type htmlContent = Inl TypeError"
proof -
  let ?ty = "with_default type (Str ''question'')"
  let ?h = "with_default htmlContent Null"
  have "applyParaphraseTechnique originalText ''synonymReplacement'' ?ty ?h r = Inl TypeError"
  proof (cases "\<forall>t. originalText \<noteq> Str t")
    case True
    then show ?thesis by (rule applyParaphraseTechnique_not_string)
  next
    case False
    then obtain t where "originalText = Str t" by blast
    moreover from False assms have "\<not> html_ok ?h" by blast
    ultimately show ?thesis by (simp add: synonymReplacement_throws)
  qed
  then have "techniques_forEach originalText ?ty ?h techniques 0 [] r = Inl TypeError"
    by (simp add: techniques_def)
  then show ?thesis by (simp add: generateVariants_try_def Let_def)
qed

lemma number_to_string_digit: "k < 10 \<Longrightarrow> number_to_string k = [digit_char k]"
  by (simp add: number_to_string.simps)

lemma creative_id_inj: "j \<le> 4 \<Longrightarrow> k \<le> 4 \<Longrightarrow> creative_id j = creative_id k \<Longrightarrow> j = k"
proof -
  assume a: "j \<le> 4" "k \<le> 4" "creative_id j = creative_id k"
  then have "char_of (48 + j) = (char_of (48 + k) :: char)"
    by (simp add: creative_id_def number_to_string_digit digit_char_def)
  then have "of_char (char_of (48 + j) :: char) = (of_char (char_of (48 + k) :: char) :: nat)"
    by simp
  with a(1,2) show "j = k" by simp
qed

lemma distinct_creative_ids:
  assumes "sorted_wrt (<) ks" "\<forall>k \<in> set ks. 0 < k \<and> k \<le> (4::nat)"
  shows "distinct (map creative_id ks)"
proof -
  from assms(1) have "distinct ks" by (simp add: strict_sorted_iff)
  moreover have "inj_on creative_id (set ks)"
    using assms(2) by (auto intro!: inj_onI creative_id_inj)
  ultimately show ?thesis by (simp add: distinct_map)
qed

lemma questionStyle_keeps_text:
  assumes "type \<noteq> Str ''question''"
    and "applyParaphraseTechnique (Str t) ''questionStyle'' type htmlContent r = Inr (res, r')"
  shows "stripHtml (Str t) = Inr (r_text res)"
  using assms
  by (auto simp: applyParaphraseTechnique_def questionStyleVariation_def stripHtml_def)

lemma orderChange_keeps_text:
  assumes "type \<noteq> Str ''question''"
    and "applyParaphraseTechnique (Str t) ''orderChange'' type htmlContent r = Inr (res, r')"
  shows "stripHtml (Str t) = Inr (r_text res)"
  using assms
  by (auto simp: applyParaphraseTechnique_def changeOrder_def stripHtml_def rule_return_def
                 Let_def split: sum.splits)

lemma non_question_entries:
  assumes "html_ok (with_default htmlContent Null)"
    and "with_default type (Str ''question'') \<noteq> Str ''question''"
  shows "6 < length (generateVariants r (Str t) type htmlContent)
         \<and> Inr (v_text (generateVariants r (Str t) type htmlContent ! 4)) = map_sum id Str (stripHtml (Str t))
         \<and> Inr (v_text (generateVariants r (Str t) type htmlContent ! 6)) = map_sum id Str (stripHtml (Str t))"
proof -
  let ?ty = "with_default type (Str ''question'')"
  let ?h = "with_default htmlContent Null"
  from generateVariants_ok [OF assms(1), of r t type]
  obtain new creative where
    g: "generateVariants r (Str t) type htmlContent = take 12 (new @ creative)" and
    len: "length new = 10" and
    ent: "\<forall>k < 10.
            v_id (new ! k) = Num (int (k + 1)) \<and> v_technique (new ! k) = techniques ! k \<and>
            (\<exists>rk res rk'. applyParaphraseTechnique (Str t) (techniques ! k) ?ty ?h rk = Inr (res, rk')
                          \<and> v_text (new ! k) = Str (r_text res))"
    by blast
  have t4: "techniques ! 4 = ''questionStyle''" and t6: "techniques ! 6 = ''orderChange''"
    by (simp_all add: techniques_def)
  from ent have "\<exists>rk res rk'. applyParaphraseTechnique (Str t) (techniques ! 4) ?ty ?h rk = Inr (res, rk')
                          \<and> v_text (new ! 4) = Str (r_text res)" by simp
  then obtain rk4 res4 rk4' where
    a4: "applyParaphraseTechnique (Str t) ''questionStyle'' ?ty ?h rk4 = Inr (res4, rk4')" and
    x4: "v_text (new ! 4) = Str (r_text res4)" unfolding t4 by blast
  from ent have "\<exists>rk res rk'. applyParaphraseTechnique (Str t) (techniques ! 6) ?ty ?h rk = Inr (res, rk')
                          \<and> v_text (new ! 6) = Str (r_text res)" by simp
  then obtain rk6 res6 rk6' where
    a6: "applyParaphraseTechnique (Str t) ''orderChange'' ?ty ?h rk6 = Inr (res6, rk6')" and
    x6: "v_text (new ! 6) = Str (r_text res6)" unfolding t6 by blast
  have n4: "take 12 (new @ creative) ! 4 = new ! 4" and n6: "take 12 (new @ creative) ! 6 = new ! 6"
    using len by (simp_all add: nth_append)
  have "6 < length (take 12 (new @ creative))" using len by simp
  then show ?thesis
    unfolding g n4 n6 x4 x6
    using questionStyle_keeps_text [OF assms(2) a4] orderChange_keeps_text [OF assms(2) a6]
    by simp
qed

lemma stripHtml_hello: "stripHtml (Str ''hello'') = Inr ''hello''"
  by (simp add: stripHtml_def tag_regex_def trim_def is_space_def)

lemma hello_answer_entries:
  "6 < length (generateVariants r (Str ''hello'') (Str ''answer'') (Str ''<p>hello</p>''))
   \<and> v_text (generateVariants r (Str ''hello'') (Str ''answer'') (Str ''<p>hello</p>'') ! 4) = Str ''hello''
   \<and> v_text (generateVariants r (Str ''hello'') (Str ''answer'') (Str ''<p>hello</p>'') ! 6) = Str ''hello''"
proof -
  have h: "html_ok (with_default (Str ''<p>hello</p>'') Null)"
    by (simp add: with_default_def)
  have q: "with_default (Str ''answer'') (Str ''question'') \<noteq> Str ''question''"
    by (simp add: with_default_def)
  from non_question_entries [OF h q, of r "''hello''"] show ?thesis
    by (simp add: stripHtml_hello)
qed

text \<open>
  C1: the returned list has at most 12 entries. The second half of the claim fails: the
  test of the \<open>forEach\<close> callback compares the object a rule returned, not its text, with
  the source text, so every technique contributes an entry. For the source text \<open>hello\<close>
  of kind \<open>answer\<close> with the html \<open><p>hello</p>\<close>, an entry with the text \<open>hello\<close> is
  returned, whatever the random draws.
\<close>

theorem generateVariants_keeps_source_text:
  "length (generateVariants r originalText type htmlContent) \<le> 12
   \<and> Str ''hello'' \<in> set (map v_text (generateVariants r (Str ''hello'') (Str ''answer'') (Str ''<p>hello</p>'')))"
proof
  show "length (generateVariants r originalText type htmlContent) \<le> 12"
    by (auto simp: generateVariants_def generateVariants_try_def Let_def split: sum.splits)
next
  let ?vs = "generateVariants r (Str ''hello'') (Str ''answer'') (Str ''<p>hello</p>'')"
  from hello_answer_entries [of r] have "4 < length ?vs" "v_text (?vs ! 4) = Str ''hello''"
    by simp_all
  then have "map v_text ?vs ! 4 = Str ''hello''" "4 < length (map v_text ?vs)" by simp_all
  then show "Str ''hello'' \<in> set (map v_text ?vs)" by (metis nth_mem)
qed

text \<open>
  C2 (as stated, refuted): for the source text \<open>hello\<close> of kind \<open>answer\<close> with the html
  \<open><p>hello</p>\<close>, the entries of \<open>questionStyle\<close> and \<open>orderChange\<close> both carry the text
  \<open>hello\<close>.
\<close>

theorem generateVariants_duplicate_texts:
  "\<not> distinct (map v_text
       (generateVariants zero_draws (Str ''hello'') (Str ''answer'') (Str ''<p>hello</p>'')))"
proof
  let ?vs = "generateVariants zero_draws (Str ''hello'') (Str ''answer'') (Str ''<p>hello</p>'')"
  assume d: "distinct (map v_text ?vs)"
  from hello_answer_entries [of zero_draws]
  have l: "6 < length ?vs" and e: "v_text (?vs ! 4) = v_text (?vs ! 6)" by simp_all
  from l have "4 < length (map v_text ?vs)" "6 < length (map v_text ?vs)" by simp_all
  with d have "map v_text ?vs ! 4 \<noteq> map v_text ?vs ! 6"
    using nth_eq_iff_index_eq [of "map v_text ?vs" 4 6] by simp
  with l e show False by simp
qed

text \<open>
  C2 (amended): the generator does not deduplicate by text. What no two entries of the
  returned list share is the id: the number \<open>index + 1\<close> of a technique or the string
  \<open>creative_<index + 1>\<close> of a combination.
\<close>

theorem generateVariants_distinct_ids:
  "distinct (map v_id (generateVariants r originalText type htmlContent))"
proof (cases "(\<forall>t. originalText \<noteq> Str t) \<or> \<not> html_ok (with_default htmlContent Null)")
  case True
  then show ?thesis
    by (simp add: generateVariants_def generateVariants_throws)
next
  case False
  then obtain t where t: "originalText = Str t" and h: "html_ok (with_default htmlContent Null)"
    by blast
  from generateVariants_ok [OF h, of r t type]
  obtain new creative ks where
    g: "generateVariants r (Str t) type htmlContent = take 12 (new @ creative)" and
    len: "length new = 10" and
    ent0: "\<forall>k < 10.
             v_id (new ! k) = Num (int (k + 1)) \<and> v_technique (new ! k) = techniques ! k \<and>
             (\<exists>rk res rk'. applyParaphraseTechnique (Str t) (techniques ! k)
                              (with_default type (Str ''question''))
                              (with_default htmlContent Null) rk = Inr (res, rk')
                           \<and> v_text (new ! k) = Str (r_text res))" and
    ids: "map v_id creative = map creative_id ks" and
    srt: "sorted_wrt (<) ks" and bnd: "\<forall>k \<in> set ks. 0 < k \<and> k \<le> 4"
    by blast
  from ent0 have ent: "\<forall>k < 10. v_id (new ! k) = Num (int (k + 1))" by simp
  have n: "map v_id new = map (\<lambda>k. Num (int (k + 1))) [0..<length new]"
  proof (rule nth_equalityI)
    show "length (map v_id new) = length (map (\<lambda>k. Num (int (k + 1))) [0..<length new])"
      by simp
  next
    fix i assume "i < length (map v_id new)"
    then have i: "i < length new" by simp
    with len ent have "v_id (new ! i) = Num (int (i + 1))" by simp
    with i show "map v_id new ! i = map (\<lambda>k. Num (int (k + 1))) [0..<length new] ! i"
      by simp
  qed
  have "inj_on (\<lambda>k::nat. Num (int (k + 1))) (set [0..<length new])"
    by (rule inj_onI) simp
  then have "distinct (map v_id new)"
    unfolding n by (simp only: distinct_map distinct_upt simp_thms)
  moreover have "distinct (map v_id creative)"
    unfolding ids using srt bnd by (rule distinct_creative_ids)
  moreover have "set (map v_id new) \<inter> set (map v_id creative) = {}"
  proof -
    have "set (map v_id new) \<subseteq> range Num" unfolding n by auto
    moreover have "set (map v_id creative) \<subseteq> range Str"
      unfolding ids by (auto simp: creative_id_def)
    moreover have "range Num \<inter> range Str = {}" by auto
    ultimately show ?thesis by blast
  qed
  ultimately have "distinct (map v_id (new @ creative))" by simp
  then have "distinct (take 12 (map v_id (new @ creative)))" by (rule distinct_take)
  then show ?thesis unfolding t g by (simp add: take_map)
qed

text \<open>
  C8: \<open>generateVariants\<close> returns a list on every input, and the empty list whenever the
  body of its \<open>try\<close> block throws: when a technique throws after a prefix of the techniques
  has run (the variants accumulated so far are dropped), when the creative pass throws,
  and in particular when the source text is not a string or the html is a truthy value
  that is not a string.
\<close>

theorem generateVariants_never_throws:
  "(generateVariants_try r originalText type htmlContent = Inl e
      \<longrightarrow> generateVariants r originalText type htmlContent = [])
   \<and> (techniques = ts1 @ t # ts2
        \<and> techniques_forEach originalText (with_default type (Str ''question''))
              (with_default htmlContent Null) ts1 0 [] r = Inr (accumulated, r1)
        \<and> applyParaphraseTechnique originalText t (with_default type (Str ''question''))
              (with_default htmlContent Null) r1 = Inl e
      \<longrightarrow> generateVariants r originalText type htmlContent = [])
   \<and> (techniques_forEach originalText (with_default type (Str ''question''))
              (with_default htmlContent Null) techniques 0 [] r = Inr (accumulated, r1)
        \<and> generateCreativeVariants originalText (with_default type (Str ''question''))
              (with_default htmlContent Null) r1 = Inl e
      \<longrightarrow> generateVariants r originalText type htmlContent = [])
   \<and> ((\<forall>s. originalText \<noteq> Str s) \<or> \<not> html_ok (with_default htmlContent Null)
      \<longrightarrow> generateVariants r originalText type htmlContent = [])"
proof (intro conjI impI)
  assume "generateVariants_try r originalText type htmlContent = Inl e"
  then show "generateVariants r originalText type htmlContent = []"
    by (simp add: generateVariants_def)
next
  let ?ty = "with_default type (Str ''question'')"
  let ?h = "with_default htmlContent Null"
  assume a: "techniques = ts1 @ t # ts2
        \<and> techniques_forEach originalText ?ty ?h ts1 0 [] r = Inr (accumulated, r1)
        \<and> applyParaphraseTechnique originalText t ?ty ?h r1 = Inl e"
  then have "techniques_forEach originalText ?ty ?h (ts1 @ t # ts2) 0 [] r = Inl e"
    using techniques_forEach_throw by blast
  with a have "techniques_forEach originalText ?ty ?h techniques 0 [] r = Inl e" by simp
  then show "generateVariants r originalText type htmlContent = []"
    by (simp add: generateVariants_def generateVariants_try_def Let_def)
next
  let ?ty = "with_default type (Str ''question'')"
  let ?h = "with_default htmlContent Null"
  assume "techniques_forEach originalText ?ty ?h techniques 0 [] r = Inr (accumulated, r1)
        \<and> generateCreativeVariants originalText ?ty ?h r1 = Inl e"
  then show "generateVariants r originalText type htmlContent = []"
    by (simp add: generateVariants_def generateVariants_try_def Let_def)
next
  assume "(\<forall>s. originalText \<noteq> Str s) \<or> \<not> html_ok (with_default htmlContent Null)"
  then show "generateVariants r originalText type htmlContent = []"
    by (simp add: generateVariants_def generateVariants_throws)
qed

theorem generateVariants_never_throws_witness:
  "generateVariants (\<lambda>_. 0) Undefined (Str ''question'') Null = []
   \<and> generateVariants (\<lambda>_. 0) (Str ''hello'') (Str ''answer'') (Num 5) = []
   \<and> techniques = [] @ ''synonymReplacement'' # tl techniques
   \<and> applyParaphraseTechnique (Str ''hello'') ''synonymReplacement'' (Str ''answer'') (Num 5) (\<lambda>_. 0)
       = Inl TypeError"
proof -
  have a: "\<forall>s. Undefined \<noteq> Str s" by simp
  have w: "with_default (Str ''answer'') (Str ''question'') = Str ''answer''"
       "with_default (Num 5) Null = Num 5"
    by (simp_all add: with_default_def)
  have t: "techniques = [] @ ''synonymReplacement'' # tl techniques"
    by (simp add: techniques_def)
  have f: "techniques_forEach (Str ''hello'') (Str ''answer'') (Num 5) [] 0 [] (\<lambda>_. 0)
           = Inr ([], \<lambda>_. 0)" by simp
  have h: "\<not> html_ok (Num 5)" by (simp add: html_ok_def)
  have x: "applyParaphraseTechnique (Str ''hello'') ''synonymReplacement'' (Str ''answer'') (Num 5)
            (\<lambda>_. 0) = Inl TypeError"
    using h by (rule synonymReplacement_throws)
  from generateVariants_never_throws
         [of "\<lambda>_. 0" Undefined "Str ''question''" Null TypeError "[]" "''x''" "[]" "[]" "\<lambda>_. 0"] a
  have 1: "generateVariants (\<lambda>_. 0) Undefined (Str ''question'') Null = []" by blast
  from generateVariants_never_throws
         [of "\<lambda>_. 0" "Str ''hello''" "Str ''answer''" "Num 5" TypeError "[]"
             "''synonymReplacement''" "tl techniques" "[]" "\<lambda>_. 0"] t f x
  have 2: "generateVariants (\<lambda>_. 0) (Str ''hello'') (Str ''answer'') (Num 5) = []"
    unfolding w by blast
  from 1 2 t x show ?thesis by blast
qed

section \<open>Properties of the question update\<close>

lemma find_in_set: "find P xs = Some x \<Longrightarrow> x \<in> set xs \<and> P x"
  by (induction xs) (auto split: if_splits)

lemma save_question_rows:
  assumes "q' \<in> set (save_question q rows)" "q_id q' = q_id q"
  shows "q' = q"
  using assms by (auto simp: save_question_def split: if_splits)

lemma save_question_present:
  assumes "q0 \<in> set rows" "q_id q0 = q_id q"
  shows "q \<in> set (save_question q rows)"
  using assms by (force simp: save_question_def)

lemma status_column_default:
  assumes "\<not> truthy v"
  shows "status_column (or_else v (Str ''Draft'')) = Inr Draft"
  using assms by (simp add: or_else_def status_column_def)

lemma updateQuestion_found:
  assumes "\<not> validation_errors body" and "\<not> truthy (b_status body)"
    and "find (\<lambda>q. q_id q = ident) rows = Some q0"
  shows "\<exists>q1. q_id q1 = ident \<and> q_status q1 = Draft
              \<and> (case q_answer q0 of
                    None \<Rightarrow> q_answer q1 = None
                             \<and> fst (updateQuestion rq ra (Connected rows) ident body) = Status500
                  | Some a0 \<Rightarrow> (\<exists>a1. q_answer q1 = Some a1 \<and> a_status a1 = Draft)
                             \<and> fst (updateQuestion rq ra (Connected rows) ident body) = Status200)
              \<and> snd (updateQuestion rq ra (Connected rows) ident body)
                  = Connected (save_question q1 rows)"
proof -
  have s: "status_column (or_else (b_status (sanitized body)) (Str ''Draft'')) = Inr Draft"
    using assms(2) by (simp add: status_column_default sanitized_def)
  from find_in_set [OF assms(3)] have i: "q_id q0 = ident" by simp
  let ?b = "sanitized body"
  let ?q1 = "q0\<lparr>question_text := b_question_text ?b, q_status := Draft\<rparr>"
  show ?thesis
  proof (cases "q_answer q0")
    case None
    then have "updateQuestion rq ra (Connected rows) ident body
               = (Status500, Connected (save_question ?q1 rows))"
      using assms(1,3) s by (simp add: updateQuestion_def Let_def)
    with None i show ?thesis
      by (intro exI [of _ ?q1]) simp
  next
    case (Some a0)
    let ?a1 = "a0\<lparr>answer_text := b_answer_text ?b, answer_html := b_answer_html ?b,
                  a_status := Draft\<rparr>"
    let ?q2 = "?q1\<lparr>q_answer :=
                     Some (?a1\<lparr>a_variants :=
                                map (\<lambda>variant.
                                       \<lparr>av_variant_text = text_column (v_text variant),
                                        av_variant_html = text_column (v_html variant),
                                        av_is_approved = True\<rparr>)
                                    (generateVariants ra (Str (b_answer_text ?b))
                                       (Str ''answer'') (Str (b_answer_html ?b)))\<rparr>),
                   q_variants :=
                     map (\<lambda>variant.
                            \<lparr>qv_variant_text = text_column (v_text variant),
                             qv_is_approved = True\<rparr>)
                         (generateVariants rq (Str (b_question_text ?b))
                            (Str ''question'') Undefined)\<rparr>"
    from Some have "updateQuestion rq ra (Connected rows) ident body
               = (Status200, Connected (save_question ?q2 rows))"
      using assms(1,3) s by (simp add: updateQuestion_def Let_def)
    with Some i show ?thesis
      by (intro exI [of _ ?q2]) simp
  qed
qed

text \<open>
  C10: when an update request without a status (or with a falsy one) passes validation
  and its question exists, the stored question is a draft afterwards and so is its
  answer; after a successful update the answer exists. The matcher then never returns
  this question, whatever the agent and the message.
\<close>

theorem updateQuestion_resets_status:
  assumes "\<not> validation_errors body" and "\<not> truthy (b_status body)"
    and "find (\<lambda>q. q_id q = ident) rows = Some q0"
  shows "\<exists>rows'. snd (updateQuestion rq ra (Connected rows) ident body) = Connected rows'
           \<and> (\<exists>q \<in> set rows'. q_id q = ident)
           \<and> (\<forall>q \<in> set rows'. q_id q = ident \<longrightarrow>
                 q_status q = Draft \<and> (\<forall>a. q_answer q = Some a \<longrightarrow> a_status a = Draft))
           \<and> (fst (updateQuestion rq ra (Connected rows) ident body) = Status200 \<longrightarrow>
                 (\<forall>q \<in> set rows'. q_id q = ident \<longrightarrow> (\<exists>a. q_answer q = Some a \<and> a_status a = Draft)))
           \<and> (\<forall>r agentId userMessage. valid_rng r \<longrightarrow>
                 question_id (findMatchingAnswer r (Connected rows') agentId userMessage) \<noteq> Some ident)"
proof -
  from updateQuestion_found [OF assms, of rq ra]
  obtain q1 where
    id1: "q_id q1 = ident" and st1: "q_status q1 = Draft" and
    ans: "case q_answer q0 of
            None \<Rightarrow> q_answer q1 = None
                     \<and> fst (updateQuestion rq ra (Connected rows) ident body) = Status500
          | Some a0 \<Rightarrow> (\<exists>a1. q_answer q1 = Some a1 \<and> a_status a1 = Draft)
                     \<and> fst (updateQuestion rq ra (Connected rows) ident body) = Status200" and
    db: "snd (updateQuestion rq ra (Connected rows) ident body) = Connected (save_question q1 rows)"
    by blast
  let ?rows = "save_question q1 rows"
  from find_in_set [OF assms(3)] have q0: "q0 \<in> set rows" "q_id q0 = ident" by simp_all
  have only: "\<And>q. q \<in> set ?rows \<Longrightarrow> q_id q = ident \<Longrightarrow> q = q1"
    using save_question_rows [of _ q1 rows] id1 by simp
  have present: "\<exists>q \<in> set ?rows. q_id q = ident"
    using save_question_present [of q0 rows q1] q0 id1 by auto
  have a1: "\<forall>a. q_answer q1 = Some a \<longrightarrow> a_status a = Draft"
    using ans by (cases "q_answer q0") auto
  have drafts: "\<forall>q \<in> set ?rows. q_id q = ident \<longrightarrow>
                 q_status q = Draft \<and> (\<forall>a. q_answer q = Some a \<longrightarrow> a_status a = Draft)"
    using only st1 a1 by blast
  have ok: "fst (updateQuestion rq ra (Connected rows) ident body) = Status200 \<longrightarrow>
                 (\<forall>q \<in> set ?rows. q_id q = ident \<longrightarrow> (\<exists>a. q_answer q = Some a \<and> a_status a = Draft))"
    using ans only by (cases "q_answer q0") auto
  have hidden: "\<forall>r agentId userMessage. valid_rng r \<longrightarrow>
                 question_id (findMatchingAnswer r (Connected ?rows) agentId userMessage) \<noteq> Some ident"
  proof (intro allI impI notI)
    fix r agentId userMessage
    assume v: "valid_rng r"
      and m: "question_id (findMatchingAnswer r (Connected ?rows) agentId userMessage) = Some ident"
    have "\<exists>m. userMessage = Str m"
    proof (rule ccontr)
      assume "\<not> (\<exists>m. userMessage = Str m)"
      then have "findMatchingAnswer r (Connected ?rows) agentId userMessage = technical_difficulties"
        by (intro matcher_failure) simp
      with m show False by (simp add: technical_difficulties_def)
    qed
    then obtain s where "userMessage = Str s" by blast
    with matched_question_is_final [OF v, of ?rows agentId s ident] m
    obtain q where "q \<in> set ?rows" "q_id q = ident" "q_status q = Final" by blast
    with drafts show False by auto
  qed
  from db present drafts ok hidden show ?thesis by blast
qed


theorem updateQuestion_resets_status_witness:
  "q_status return_policy_question = Final
   \<and> (\<exists>rows'. snd (updateQuestion (\<lambda>_. 0) (\<lambda>_. 1 / 2) (Connected [return_policy_question])
                      ''q-1'' edit_without_status) = Connected rows'
         \<and> (\<exists>q \<in> set rows'. q_id q = ''q-1'')
         \<and> (\<forall>q \<in> set rows'. q_id q = ''q-1'' \<longrightarrow>
               q_status q = Draft \<and> (\<forall>a. q_answer q = Some a \<longrightarrow> a_status a = Draft)))"
proof -
  have h1: "\<not> validation_errors edit_without_status"
    by (simp add: validation_errors_def edit_without_status_def trim_def is_space_def)
  have h2: "\<not> truthy (b_status edit_without_status)"
    by (simp add: edit_without_status_def)
  have h3: "find (\<lambda>q. q_id q = ''q-1'') [return_policy_question] = Some return_policy_question"
    by (simp add: return_policy_question_def)
  have "q_status return_policy_question = Final"
    by (simp add: return_policy_question_def)
  with updateQuestion_resets_status [OF h1 h2 h3, of "\<lambda>_. 0" "\<lambda>_. 1 / 2"]
  show ?thesis by blast
qed

end
